theory Spec2Isabelle
  imports Main
begin

section \<open>JavaScript strings\<close>

text \<open>
  A JavaScript string is modelled as a \<^typ>\<open>string\<close>. Three methods of the
  source are needed: \<^verbatim>\<open>startsWith\<close>, \<^verbatim>\<open>includes\<close> and \<^verbatim>\<open>toLowerCase\<close>
  (the latter on the ASCII letters, which is where the words the source looks for live).
\<close>

fun startsWith :: "string \<Rightarrow> string \<Rightarrow> bool" where
  "startsWith s [] = True"
| "startsWith [] (p # ps) = False"
| "startsWith (c # cs) (p # ps) = (c = p \<and> startsWith cs ps)"

fun includes_str :: "string \<Rightarrow> string \<Rightarrow> bool" where
  "includes_str [] sub = (sub = [])"
| "includes_str (c # cs) sub = (startsWith (c # cs) sub \<or> includes_str cs sub)"

definition toLowerChar :: "char \<Rightarrow> char" where
  "toLowerChar c =
     (let n = (of_char c :: nat) in if 65 \<le> n \<and> n \<le> 90 then char_of (n + 32) else c)"

definition toLowerCase :: "string \<Rightarrow> string" where
  "toLowerCase s = map toLowerChar s"

text \<open>Truthiness of an optional string: \<^verbatim>\<open>null\<close> and \<^verbatim>\<open>""\<close> are falsy.\<close>

definition truthy :: "string option \<Rightarrow> bool" where
  "truthy v = (case v of None \<Rightarrow> False | Some s \<Rightarrow> s \<noteq> [])"

section \<open>ThreadSession (session.ts)\<close>

text \<open>
  Instants (\<^verbatim>\<open>Date\<close>) are milliseconds since the epoch, as \<^verbatim>\<open>getTime()\<close> reads them.
  The \<^verbatim>\<open>AbortController\<close> field is \<open>None\<close> for \<^verbatim>\<open>null\<close> and \<open>Some b\<close> for a
  controller whose signal has been aborted iff \<open>b\<close>.
\<close>

record TokenUsage =
  input_tokens :: int
  output_tokens :: int

record ThreadSession =
  sessionId :: "string option"
  chatId :: int
  threadAnchorId :: int
  title :: string
  createdAt :: int
  lastActivity :: "int option"
  queryStarted :: "int option"
  currentTool :: "string option"
  lastTool :: "string option"
  lastError :: "string option"
  lastErrorTime :: "int option"
  lastUsage :: "TokenUsage option"
  lastMessage :: "string option"
  abortController :: "bool option"
  isQueryRunning :: bool
  stopRequested :: bool
  isProcessing :: bool
  wasInterruptedByNewMessage :: bool

text \<open>The constructor; \<open>now\<close> is the clock reading of \<^verbatim>\<open>new Date()\<close>.\<close>

definition newThreadSession :: "int \<Rightarrow> int \<Rightarrow> string option \<Rightarrow> int \<Rightarrow> ThreadSession" where
  "newThreadSession cid anchor ttl now =
     \<lparr> sessionId = None, chatId = cid, threadAnchorId = anchor,
       title = (case ttl of None \<Rightarrow> ''Untitled''
                | Some t \<Rightarrow> if t = [] then ''Untitled'' else t),
       createdAt = now, lastActivity = None, queryStarted = None,
       currentTool = None, lastTool = None, lastError = None, lastErrorTime = None,
       lastUsage = None, lastMessage = None, abortController = None,
       isQueryRunning = False, stopRequested = False, isProcessing = False,
       wasInterruptedByNewMessage = False \<rparr>"

definition isActive :: "ThreadSession \<Rightarrow> bool" where
  "isActive s = (sessionId s \<noteq> None)"

definition isRunning :: "ThreadSession \<Rightarrow> bool" where
  "isRunning s = (isQueryRunning s \<or> isProcessing s)"

definition consumeInterruptFlag :: "ThreadSession \<Rightarrow> bool \<times> ThreadSession" where
  "consumeInterruptFlag s =
     (let was = wasInterruptedByNewMessage s;
          s1 = s\<lparr>wasInterruptedByNewMessage := False\<rparr>;
          s2 = (if was then s1\<lparr>stopRequested := False\<rparr> else s1)
      in (was, s2))"

definition markInterrupt :: "ThreadSession \<Rightarrow> ThreadSession" where
  "markInterrupt s = s\<lparr>wasInterruptedByNewMessage := True\<rparr>"

definition clearStopRequested :: "ThreadSession \<Rightarrow> ThreadSession" where
  "clearStopRequested s = s\<lparr>stopRequested := False\<rparr>"

text \<open>\<^verbatim>\<open>startProcessing\<close> returns a closure; \<open>stopProcessing\<close> is that closure.\<close>

definition startProcessing :: "ThreadSession \<Rightarrow> ThreadSession" where
  "startProcessing s = s\<lparr>isProcessing := True\<rparr>"

definition stopProcessing :: "ThreadSession \<Rightarrow> ThreadSession" where
  "stopProcessing s = s\<lparr>isProcessing := False\<rparr>"

text \<open>
  \<^verbatim>\<open>stop()\<close> returns \<^verbatim>\<open>"stopped" | "pending" | false\<close>; the three values are
  \<open>Stopped\<close>, \<open>Pending\<close> and \<open>NotRunning\<close>.
\<close>

datatype stop_result = Stopped | Pending | NotRunning

definition stop :: "ThreadSession \<Rightarrow> stop_result \<times> ThreadSession" where
  "stop s =
     (if isQueryRunning s \<and> abortController s \<noteq> None
      then (Stopped, s\<lparr>stopRequested := True, abortController := Some True\<rparr>)
      else if isProcessing s
      then (Pending, s\<lparr>stopRequested := True\<rparr>)
      else (NotRunning, s))"

definition kill :: "ThreadSession \<Rightarrow> ThreadSession" where
  "kill s = s\<lparr>sessionId := None, lastActivity := None\<rparr>"

section \<open>The streaming send\<close>

subsection \<open>What the send is given\<close>

text \<open>
  The imports from \<^verbatim>\<open>./config\<close>, \<^verbatim>\<open>./security\<close> and \<^verbatim>\<open>./formatting\<close> are
  parameters of the model, collected in one record. \<^verbatim>\<open>checkCommandSafety\<close> returns the
  pair \<^verbatim>\<open>[isSafe, reason]\<close>.
\<close>

record Config =
  checkCommandSafety :: "string \<Rightarrow> bool \<times> string"
  isPathAllowed :: "string \<Rightarrow> bool"
  formatToolStatus :: "string \<Rightarrow> (string \<times> string) list \<Rightarrow> string"
  TEMP_PATHS :: "string list"
  STREAMING_THROTTLE_MS :: int
  THINKING_KEYWORDS :: "string list"
  THINKING_DEEP_KEYWORDS :: "string list"
  WORKING_DIR :: string
  MAX_CONCURRENT_SESSIONS :: int
  SESSION_TIMEOUT_MS :: int

definition getThinkingLevel :: "Config \<Rightarrow> string \<Rightarrow> int" where
  "getThinkingLevel cfg message =
     (let msgLower = toLowerCase message
      in if list_ex (\<lambda>k. includes_str msgLower k) (THINKING_DEEP_KEYWORDS cfg) then 50000
         else if list_ex (\<lambda>k. includes_str msgLower k) (THINKING_KEYWORDS cfg) then 10000
         else 0)"

text \<open>
  The errors the send throws. \<open>String_of\<close> is \<^verbatim>\<open>String(error)\<close>, the text that the
  \<^verbatim>\<open>catch\<close> blocks inspect; an error coming out of the backend stream is kept as that
  text.
\<close>

datatype error =
    QueryCancelled
  | UnsafeCommandBlocked string
  | FileAccessBlocked string
  | BackendError string

fun String_of :: "error \<Rightarrow> string" where
  "String_of QueryCancelled = ''Error: Query cancelled''"
| "String_of (UnsafeCommandBlocked reason) = ''Error: Unsafe command blocked: '' @ reason"
| "String_of (FileAccessBlocked filePath) = ''Error: File access blocked: '' @ filePath"
| "String_of (BackendError txt) = txt"

text \<open>
  The send suspends at every \<^verbatim>\<open>await\<close>, and other handlers may call the session
  meanwhile: \<^verbatim>\<open>stop\<close>, \<^verbatim>\<open>markInterrupt\<close> and \<^verbatim>\<open>clearStopRequested\<close> are the calls
  the handlers make on a session that is running.
\<close>

datatype session_op = OpStop | OpMarkInterrupt | OpClearStopRequested

fun applyOp :: "session_op \<Rightarrow> ThreadSession \<Rightarrow> ThreadSession" where
  "applyOp OpStop s = snd (stop s)"
| "applyOp OpMarkInterrupt s = markInterrupt s"
| "applyOp OpClearStopRequested s = clearStopRequested s"

text \<open>
  The content blocks of an assistant message. A tool input is the list of its string
  fields. Two readings of the outside world travel with the block that causes them: a
  text block carries the value \<^verbatim>\<open>Date.now()\<close> has when it is handled, and a tool use
  carries the answers \<^verbatim>\<open>checkPendingAskUserRequests\<close> would give to successive polls.
  While a message is handled the loop suspends at each delivery to the sink and at each
  poll; \<open>Meanwhile\<close> stands in the list of blocks for a call that another handler makes
  at such a point. The call touches fields of the session that the handling of a block
  neither reads nor writes, so it is placed before the block during which it arrives.
\<close>

datatype block =
    ThinkingBlock string
  | ToolUseBlock string "(string \<times> string) list" "bool list"
  | TextBlock string int
  | OtherBlock
  | Meanwhile session_op

datatype event =
    AssistantEvent "string option" "block list"
  | ResultEvent "string option" "TokenUsage option"
  | OtherEvent "string option"

fun session_id_of :: "event \<Rightarrow> string option" where
  "session_id_of (AssistantEvent sid bs) = sid"
| "session_id_of (ResultEvent sid u) = sid"
| "session_id_of (OtherEvent sid) = sid"

text \<open>
  What arrives while the loop waits for the next backend event is a list of items: a
  backend event, a call made by another handler in the meantime, or the stream throwing.
  The list is finite: the stream ends or throws. A send whose stream never ends does not
  return, and nothing below is about it.

  Leaving a \<^verbatim>\<open>for await\<close> loop by \<^verbatim>\<open>break\<close> closes the stream: the \<^verbatim>\<open>return\<close> method
  of the iterator is awaited, and an error it throws comes out of the loop. (When the
  loop is left by an error of its body, that error stands and what closing throws is
  dropped.) \<open>closeThrows\<close> is the text of the error that closing the stream throws,
  if it throws.
\<close>

datatype item = Ev event | Interleaved session_op | Throws string

record Env =
  stream :: "item list"
  datePrefix :: string
  startTime :: int
  endTime :: int
  closeThrows :: "string option"

subsection \<open>What the send produces\<close>

datatype status_kind = KThinking | KTool | KSegmentEnd | KText | KDone

datatype status_event =
  Status (kind: status_kind) (content: string) (segmentId: "nat option")

record QueryCall =
  prompt :: string
  resume :: "string option"
  maxThinkingTokens :: int

text \<open>
  The local variables of the send, and the calls made to \<^verbatim>\<open>statusCallback\<close> so far.
  The callback is the caller's sink: it acknowledges every delivery, and what the model
  keeps of it is the list of the events delivered, in order.
\<close>

record Locals =
  responseParts :: "string list"
  currentSegmentId :: nat
  currentSegmentText :: string
  lastTextUpdate :: int
  queryCompleted :: bool
  askUserTriggered :: bool
  sink :: "status_event list"

definition initLocals :: Locals where
  "initLocals =
     \<lparr> responseParts = [], currentSegmentId = 0, currentSegmentText = [],
       lastTextUpdate = 0, queryCompleted = False, askUserTriggered = False, sink = [] \<rparr>"

definition statusCallback :: "status_event \<Rightarrow> Locals \<Rightarrow> Locals" where
  "statusCallback ev l = l\<lparr>sink := sink l @ [ev]\<rparr>"

record SendResult =
  outcome :: "error + string"
  session :: ThreadSession
  delivered :: "status_event list"
  opened :: "QueryCall option"

subsection \<open>One content block\<close>

text \<open>The polling loop of the ask-user tool: at most \<open>n\<close> attempts, stopping at the first success.\<close>

fun pollAskUser :: "nat \<Rightarrow> bool list \<Rightarrow> bool" where
  "pollAskUser 0 answers = False"
| "pollAskUser (Suc n) [] = False"
| "pollAskUser (Suc n) (buttonsSent # answers) = (buttonsSent \<or> pollAskUser n answers)"

definition inputField :: "(string \<times> string) list \<Rightarrow> string \<Rightarrow> string" where
  "inputField toolInput name = (case map_of toolInput name of None \<Rightarrow> [] | Some v \<Rightarrow> v)"

definition isTmpRead :: "Config \<Rightarrow> string \<Rightarrow> string \<Rightarrow> bool" where
  "isTmpRead cfg toolName filePath =
     (toolName = ''Read'' \<and>
      (list_ex (\<lambda>p. startsWith filePath p) (TEMP_PATHS cfg) \<or> includes_str filePath ''/.claude/''))"

text \<open>The accepted path of a tool use: what follows the two safety checks.\<close>

definition acceptTool ::
  "Config \<Rightarrow> bool \<Rightarrow> string \<Rightarrow> (string \<times> string) list \<Rightarrow> bool list \<Rightarrow>
   ThreadSession \<times> Locals \<Rightarrow> ThreadSession \<times> Locals" where
  "acceptTool cfg hasCtx toolName toolInput answers sl =
     (let s = fst sl; l = snd sl;
          l1 = (if currentSegmentText l \<noteq> []
                then (statusCallback
                        (Status KSegmentEnd (currentSegmentText l) (Some (currentSegmentId l))) l)
                       \<lparr>currentSegmentId := currentSegmentId l + 1, currentSegmentText := []\<rparr>
                else l);
          toolDisplay = formatToolStatus cfg toolName toolInput;
          s1 = s\<lparr>currentTool := Some toolDisplay, lastTool := Some toolDisplay\<rparr>;
          l2 = (if \<not> startsWith toolName ''mcp__ask-user''
                then statusCallback (Status KTool toolDisplay None) l1 else l1);
          l3 = (if startsWith toolName ''mcp__ask-user'' \<and> hasCtx \<and> pollAskUser 3 answers
                then l2\<lparr>askUserTriggered := True\<rparr> else l2)
      in (s1, l3))"

fun processBlock ::
  "Config \<Rightarrow> bool \<Rightarrow> block \<Rightarrow> ThreadSession \<times> Locals \<Rightarrow>
   error option \<times> ThreadSession \<times> Locals" where
  "processBlock cfg hasCtx (ThinkingBlock thinkingText) (s, l) =
     (if thinkingText \<noteq> [] then (None, s, statusCallback (Status KThinking thinkingText None) l)
      else (None, s, l))"
| "processBlock cfg hasCtx (ToolUseBlock toolName toolInput answers) (s, l) =
     (let command = inputField toolInput ''command'';
          isSafe = fst (checkCommandSafety cfg command);
          reason = snd (checkCommandSafety cfg command);
          filePath = inputField toolInput ''file_path''
      in if toolName = ''Bash'' \<and> \<not> isSafe
         then (Some (UnsafeCommandBlocked reason), s,
               statusCallback (Status KTool (''BLOCKED: '' @ reason) None) l)
         else if toolName \<in> set [''Read'', ''Write'', ''Edit''] \<and> filePath \<noteq> [] \<and>
                 \<not> isTmpRead cfg toolName filePath \<and> \<not> isPathAllowed cfg filePath
         then (Some (FileAccessBlocked filePath), s,
               statusCallback (Status KTool (''Access denied: '' @ filePath) None) l)
         else (None, acceptTool cfg hasCtx toolName toolInput answers (s, l)))"
| "processBlock cfg hasCtx (TextBlock txt now) (s, l) =
     (let l1 = l\<lparr>responseParts := responseParts l @ [txt],
                   currentSegmentText := currentSegmentText l @ txt\<rparr>
      in if now - lastTextUpdate l1 > STREAMING_THROTTLE_MS cfg \<and>
            length (currentSegmentText l1) > 20
         then (None, s,
               (statusCallback
                  (Status KText (currentSegmentText l1) (Some (currentSegmentId l1))) l1)
                 \<lparr>lastTextUpdate := now\<rparr>)
         else (None, s, l1))"
| "processBlock cfg hasCtx OtherBlock (s, l) = (None, s, l)"
| "processBlock cfg hasCtx (Meanwhile opn) (s, l) = (None, applyOp opn s, l)"

fun processBlocks ::
  "Config \<Rightarrow> bool \<Rightarrow> block list \<Rightarrow> ThreadSession \<times> Locals \<Rightarrow>
   error option \<times> ThreadSession \<times> Locals" where
  "processBlocks cfg hasCtx [] (s, l) = (None, s, l)"
| "processBlocks cfg hasCtx (b # bs) (s, l) =
     (case processBlock cfg hasCtx b (s, l) of
        (Some e, s1, l1) \<Rightarrow> (Some e, s1, l1)
      | (None, s1, l1) \<Rightarrow> processBlocks cfg hasCtx bs (s1, l1))"

subsection \<open>The loop over the backend stream\<close>

datatype loop_exit = Exhausted | Broke | Raised error

definition latchSessionId :: "event \<Rightarrow> ThreadSession \<Rightarrow> ThreadSession" where
  "latchSessionId e s =
     (if \<not> truthy (sessionId s) \<and> truthy (session_id_of e)
      then s\<lparr>sessionId := session_id_of e\<rparr> else s)"

fun consume ::
  "Config \<Rightarrow> bool \<Rightarrow> item list \<Rightarrow> ThreadSession \<times> Locals \<Rightarrow>
   loop_exit \<times> ThreadSession \<times> Locals" where
  "consume cfg hasCtx [] (s, l) = (Exhausted, s, l)"
| "consume cfg hasCtx (Interleaved opn # rest) (s, l) = consume cfg hasCtx rest (applyOp opn s, l)"
| "consume cfg hasCtx (Throws txt # rest) (s, l) = (Raised (BackendError txt), s, l)"
| "consume cfg hasCtx (Ev e # rest) (s, l) =
     (if stopRequested s then (Broke, s, l)
      else
        (let s1 = latchSessionId e s
         in case e of
              AssistantEvent sid bs \<Rightarrow>
                (case processBlocks cfg hasCtx bs (s1, l) of
                   (Some err, s2, l2) \<Rightarrow> (Raised err, s2, l2)
                 | (None, s2, l2) \<Rightarrow>
                     if askUserTriggered l2 then (Broke, s2, l2)
                     else consume cfg hasCtx rest (s2, l2))
            | ResultEvent sid usage \<Rightarrow>
                consume cfg hasCtx rest
                  ((case usage of None \<Rightarrow> s1 | Some u \<Rightarrow> s1\<lparr>lastUsage := Some u\<rparr>),
                   l\<lparr>queryCompleted := True\<rparr>)
            | OtherEvent sid \<Rightarrow> consume cfg hasCtx rest (s1, l)))"

subsection \<open>\<^verbatim>\<open>sendMessageStreaming\<close>\<close>

definition isCleanupError :: "error \<Rightarrow> bool" where
  "isCleanupError e =
     (let errorStr = toLowerCase (String_of e)
      in includes_str errorStr ''cancel'' \<or> includes_str errorStr ''abort'')"

text \<open>The \<^verbatim>\<open>finally\<close> block.\<close>

definition finallyBlock :: "ThreadSession \<Rightarrow> ThreadSession" where
  "finallyBlock s =
     s\<lparr>isQueryRunning := False, abortController := None, queryStarted := None,
       currentTool := None\<rparr>"

text \<open>The \<^verbatim>\<open>catch\<close> block decides between suppressing and re-throwing.\<close>

definition suppressed :: "error \<Rightarrow> ThreadSession \<Rightarrow> Locals \<Rightarrow> bool" where
  "suppressed e s l =
     (isCleanupError e \<and> (queryCompleted l \<or> askUserTriggered l \<or> stopRequested s))"

text \<open>What follows the \<^verbatim>\<open>try\<close> statement when nothing is re-thrown.\<close>

definition complete :: "int \<Rightarrow> ThreadSession \<Rightarrow> Locals \<Rightarrow> string \<times> ThreadSession \<times> Locals" where
  "complete now s l =
     (let s1 = s\<lparr>lastActivity := Some now, lastError := None, lastErrorTime := None\<rparr>
      in if askUserTriggered l
         then (''[Waiting for user selection]'', s1, statusCallback (Status KDone [] None) l)
         else
           (let l1 = (if currentSegmentText l \<noteq> []
                      then statusCallback
                             (Status KSegmentEnd (currentSegmentText l) (Some (currentSegmentId l))) l
                      else l);
                l2 = statusCallback (Status KDone [] None) l1;
                joined = concat (responseParts l)
            in (if joined \<noteq> [] then joined else ''No response from Claude.'', s1, l2)))"

text \<open>Up to the check of \<^verbatim>\<open>stopRequested\<close>: the options of the backend call and the session.\<close>

definition beginSend :: "Config \<Rightarrow> Env \<Rightarrow> string \<Rightarrow> ThreadSession \<Rightarrow> QueryCall \<times> ThreadSession" where
  "beginSend cfg env message s0 =
     (let isNewSession = \<not> isActive s0;
          thinkingTokens = getThinkingLevel cfg message;
          s1 = s0\<lparr>lastMessage := Some message\<rparr>;
          messageToSend = (if isNewSession then datePrefix env @ message else message);
          options = \<lparr> prompt = messageToSend,
                      resume = (if truthy (sessionId s1) then sessionId s1 else None),
                      maxThinkingTokens = thinkingTokens \<rparr>;
          s2 = (if truthy (sessionId s1) \<and> \<not> isNewSession then s1 else s1\<lparr>sessionId := None\<rparr>)
      in (options, s2))"

text \<open>The assignments between the check and the \<^verbatim>\<open>try\<close> statement.\<close>

definition startQuery :: "Env \<Rightarrow> ThreadSession \<Rightarrow> ThreadSession" where
  "startQuery env s =
     s\<lparr>abortController := Some False, isQueryRunning := True, stopRequested := False,
       queryStarted := Some (startTime env), currentTool := None\<rparr>"

text \<open>The end of the \<^verbatim>\<open>for await\<close> statement: a loop left by \<^verbatim>\<open>break\<close> closes the stream.\<close>

definition closeStream ::
  "Env \<Rightarrow> loop_exit \<times> ThreadSession \<times> Locals \<Rightarrow> loop_exit \<times> ThreadSession \<times> Locals" where
  "closeStream env r =
     (case r of
        (Broke, s, l) \<Rightarrow>
          (case closeThrows env of
             None \<Rightarrow> (Broke, s, l)
           | Some txt \<Rightarrow> (Raised (BackendError txt), s, l))
      | (ex, s, l) \<Rightarrow> (ex, s, l))"

definition runQuery ::
  "Config \<Rightarrow> Env \<Rightarrow> bool \<Rightarrow> ThreadSession \<Rightarrow> loop_exit \<times> ThreadSession \<times> Locals" where
  "runQuery cfg env hasCtx s =
     closeStream env (consume cfg hasCtx (stream env) (startQuery env s, initLocals))"

text \<open>The \<^verbatim>\<open>catch\<close> and \<^verbatim>\<open>finally\<close> blocks and the rest of the function.\<close>

definition finishSend :: "Env \<Rightarrow> QueryCall \<Rightarrow> loop_exit \<times> ThreadSession \<times> Locals \<Rightarrow> SendResult" where
  "finishSend env options r =
     (case r of
        (Raised e, s4, l) \<Rightarrow>
          if suppressed e s4 l
          then (case complete (endTime env) (finallyBlock s4) l of
                  (response, s5, l5) \<Rightarrow>
                    \<lparr> outcome = Inr response, session = s5, delivered = sink l5,
                      opened = Some options \<rparr>)
          else \<lparr> outcome = Inl e,
                 session = finallyBlock (s4\<lparr>lastError := Some (take 100 (String_of e)),
                                          lastErrorTime := Some (endTime env)\<rparr>),
                 delivered = sink l, opened = Some options \<rparr>
      | (ex, s4, l) \<Rightarrow>
          (case complete (endTime env) (finallyBlock s4) l of
             (response, s5, l5) \<Rightarrow>
               \<lparr> outcome = Inr response, session = s5, delivered = sink l5,
                 opened = Some options \<rparr>))"

definition sendMessageStreaming ::
  "Config \<Rightarrow> Env \<Rightarrow> string \<Rightarrow> bool \<Rightarrow> ThreadSession \<Rightarrow> SendResult" where
  "sendMessageStreaming cfg env message hasCtx s0 =
     (let options = fst (beginSend cfg env message s0);
          s2 = snd (beginSend cfg env message s0)
      in if stopRequested s2
         then \<lparr> outcome = Inl QueryCancelled, session = s2\<lparr>stopRequested := False\<rparr>,
                delivered = [], opened = None \<rparr>
         else finishSend env options (runQuery cfg env hasCtx s2))"

section \<open>The text handler's send with one retry\<close>

text \<open>
  Steps 7 to 13 of \<^verbatim>\<open>handleText\<close>. What the handler does to the outside is recorded
  as a list of actions, in order: a call of \<^verbatim>\<open>sendMessageStreaming\<close> with its message
  and with the backend call that the send opened (none when the send was cancelled at its
  first check), the audit log entry, \<^verbatim>\<open>saveSessions\<close>, the deletion of the tool
  messages of the failed attempt, \<^verbatim>\<open>kill\<close>, and the replies posted to the chat (their
  text without the leading emoji). The backend behaves differently at each attempt, so
  the environment is given per attempt.
\<close>

datatype action =
    Sent string "QueryCall option"
  | AuditLog string string
  | SaveSessions
  | DeleteToolMessages
  | Killed
  | Reply string





section \<open>Persisted records\<close>

text \<open>
  \<^verbatim>\<open>ThreadSessionData\<close> and \<^verbatim>\<open>PersistedSessions\<close> are declared in \<^verbatim>\<open>./types\<close>; their
  fields are taken from \<^verbatim>\<open>toData\<close>, \<^verbatim>\<open>fromData\<close>, \<^verbatim>\<open>saveSessions\<close> and
  \<^verbatim>\<open>loadSessions\<close>, which build and read them. An ISO-8601 text is
  represented by the instant it denotes (\<^verbatim>\<open>toISOString\<close> and \<^verbatim>\<open>new Date(text)\<close> are
  inverse on instants); \<open>last_activity\<close> is optional because \<^verbatim>\<open>fromData\<close> tests it.
\<close>

record ThreadSessionData =
  session_id :: string
  chat_id :: int
  thread_anchor_id :: int
  created_at :: int
  last_activity :: "int option"
  working_dir :: string
  data_title :: string

definition toData :: "Config \<Rightarrow> int \<Rightarrow> ThreadSession \<Rightarrow> ThreadSessionData" where
  "toData cfg now s =
     \<lparr> session_id = (case sessionId s of None \<Rightarrow> [] | Some sid \<Rightarrow> sid),
       chat_id = chatId s,
       thread_anchor_id = threadAnchorId s,
       created_at = createdAt s,
       last_activity = Some (case lastActivity s of Some t \<Rightarrow> t | None \<Rightarrow> now),
       working_dir = WORKING_DIR cfg,
       data_title = title s \<rparr>"

definition fromData :: "int \<Rightarrow> ThreadSessionData \<Rightarrow> ThreadSession" where
  "fromData now d =
     (newThreadSession (chat_id d) (thread_anchor_id d) (Some (data_title d)) now)
       \<lparr> sessionId := (if session_id d \<noteq> [] then Some (session_id d) else None),
         createdAt := created_at d,
         lastActivity := last_activity d \<rparr>"

section \<open>SessionManager\<close>

text \<open>
  The registry is a JavaScript \<^verbatim>\<open>Map\<close>, which keeps its entries in insertion order:
  an association list. The key \<^verbatim>\<open>`${chatId}:${threadAnchorId}`\<close> is represented by the
  pair of numbers it is printed from.
\<close>

type_synonym key = "int \<times> int"

definition getKey :: "int \<Rightarrow> int \<Rightarrow> key" where
  "getKey cid anchor = (cid, anchor)"

fun mapSet :: "'k \<Rightarrow> 'v \<Rightarrow> ('k \<times> 'v) list \<Rightarrow> ('k \<times> 'v) list" where
  "mapSet k v [] = [(k, v)]"
| "mapSet k v (p # ps) = (if fst p = k then (k, v) # ps else p # mapSet k v ps)"

definition mapDelete :: "'k \<Rightarrow> ('k \<times> 'v) list \<Rightarrow> ('k \<times> 'v) list" where
  "mapDelete k ps = filter (\<lambda>p. fst p \<noteq> k) ps"

record PersistedSessions =
  version :: int
  psessions :: "ThreadSessionData list"

text \<open>The sessions file: absent, not parsable as JSON, or a parsed record.\<close>

datatype file_content = Unparsable | Parsed PersistedSessions

datatype log_msg =
    MaxConcurrentReached int
  | RemovedIdle int
  | CreatedSession int nat
  | RemovedSession int
  | CleanedUp nat
  | SavedSessions nat
  | NoSavedFile
  | UnknownVersion int
  | LoadedSessions nat
  | LoadFailed

datatype console_call = ConsoleLog log_msg | ConsoleWarn log_msg | ConsoleError log_msg

text \<open>The manager's map, together with the file and the console it writes to.\<close>

record SessionManager =
  sessions :: "(key \<times> ThreadSession) list"
  sessionsFile :: "file_content option"
  console :: "console_call list"

definition getSession :: "SessionManager \<Rightarrow> int \<Rightarrow> int \<Rightarrow> ThreadSession option" where
  "getSession m cid anchor = map_of (sessions m) (getKey cid anchor)"

definition getSessionsForChat :: "SessionManager \<Rightarrow> int \<Rightarrow> ThreadSession list" where
  "getSessionsForChat m cid = filter (\<lambda>s. chatId s = cid) (map snd (sessions m))"

definition saveSessions :: "Config \<Rightarrow> int \<Rightarrow> SessionManager \<Rightarrow> SessionManager" where
  "saveSessions cfg now m =
     (let data = \<lparr> version = 1,
                   psessions = map (toData cfg now)
                                 (filter (\<lambda>s. truthy (sessionId s)) (map snd (sessions m))) \<rparr>
      in m\<lparr>sessionsFile := Some (Parsed data),
           console := console m @ [ConsoleLog (SavedSessions (length (psessions data)))]\<rparr>)"

definition removeSession ::
  "Config \<Rightarrow> int \<Rightarrow> int \<Rightarrow> int \<Rightarrow> SessionManager \<Rightarrow> bool \<times> SessionManager" where
  "removeSession cfg now cid anchor m =
     (let k = getKey cid anchor;
          removed = (map_of (sessions m) k \<noteq> None)
      in if removed
         then (True, saveSessions cfg now
                       (m\<lparr>sessions := mapDelete k (sessions m),
                          console := console m @ [ConsoleLog (RemovedSession anchor)]\<rparr>))
         else (False, m))"

text \<open>\<^verbatim>\<open>lastActivity?.getTime() || 0\<close>\<close>

definition activityTime :: "ThreadSession \<Rightarrow> int" where
  "activityTime s = (case lastActivity s of None \<Rightarrow> 0 | Some t \<Rightarrow> t)"

text \<open>
  The candidates for eviction, in the order \<^verbatim>\<open>Array.prototype.sort\<close> leaves them
  (the sort is stable, as \<^const>\<open>sort_key\<close> is).
\<close>

definition idleSessions :: "SessionManager \<Rightarrow> int \<Rightarrow> ThreadSession list" where
  "idleSessions m cid =
     sort_key activityTime
       (filter (\<lambda>s. chatId s = cid \<and> \<not> isRunning s) (map snd (sessions m)))"

definition evictIfFull :: "Config \<Rightarrow> int \<Rightarrow> int \<Rightarrow> SessionManager \<Rightarrow> SessionManager" where
  "evictIfFull cfg now cid m =
     (let activeSessions = filter isRunning (getSessionsForChat m cid)
      in if int (length activeSessions) \<ge> MAX_CONCURRENT_SESSIONS cfg
         then
           (let m1 = m\<lparr>console := console m @
                          [ConsoleWarn (MaxConcurrentReached (MAX_CONCURRENT_SESSIONS cfg))]\<rparr>
            in case idleSessions m1 cid of
                 [] \<Rightarrow> m1
               | oldest # others \<Rightarrow>
                   (let m2 = snd (removeSession cfg now (chatId oldest) (threadAnchorId oldest) m1)
                    in m2\<lparr>console := console m2 @
                                [ConsoleLog (RemovedIdle (threadAnchorId oldest))]\<rparr>))
         else m)"

definition getOrCreateSession ::
  "Config \<Rightarrow> int \<Rightarrow> int \<Rightarrow> int \<Rightarrow> string option \<Rightarrow> SessionManager \<Rightarrow>
   ThreadSession \<times> SessionManager" where
  "getOrCreateSession cfg now cid anchor ttl m =
     (let k = getKey cid anchor
      in case map_of (sessions m) k of
           Some existing \<Rightarrow> (existing, m)
         | None \<Rightarrow>
             (let m1 = evictIfFull cfg now cid m;
                  created = newThreadSession cid anchor ttl now;
                  m2 = m1\<lparr>sessions := mapSet k created (sessions m1)\<rparr>;
                  m3 = m2\<lparr>console := console m2 @
                               [ConsoleLog (CreatedSession anchor (length (sessions m2)))]\<rparr>
              in (created, saveSessions cfg now m3)))"

text \<open>
  \<^verbatim>\<open>cleanupInactiveSessions\<close> iterates over the live map while it deletes from it: an
  entry deleted before the iterator reaches it is not visited. \<open>cleanupLoop\<close> runs over
  the entries still to visit.
\<close>

function cleanupLoop ::
  "Config \<Rightarrow> int \<Rightarrow> (key \<times> ThreadSession) list \<Rightarrow> SessionManager \<times> nat \<Rightarrow>
   SessionManager \<times> nat" where
  "cleanupLoop cfg now [] (m, cleaned) = (m, cleaned)"
| "cleanupLoop cfg now (entry # rest) (m, cleaned) =
     (let s = snd entry
      in if isRunning s then cleanupLoop cfg now rest (m, cleaned)
         else if now - activityTime s > SESSION_TIMEOUT_MS cfg
         then cleanupLoop cfg now
                (mapDelete (getKey (chatId s) (threadAnchorId s)) rest)
                (snd (removeSession cfg now (chatId s) (threadAnchorId s) m), cleaned + 1)
         else cleanupLoop cfg now rest (m, cleaned))"
  by pat_completeness auto
termination
  by (relation "measure (\<lambda>(cfg, now, todo, mc). length todo)")
     (auto simp: mapDelete_def less_Suc_eq_le)

definition cleanupInactiveSessions :: "Config \<Rightarrow> int \<Rightarrow> SessionManager \<Rightarrow> nat \<times> SessionManager" where
  "cleanupInactiveSessions cfg now m =
     (let r = cleanupLoop cfg now (sessions m) (m, 0);
          m1 = fst r; cleaned = snd r
      in (cleaned,
          if cleaned > 0 then m1\<lparr>console := console m1 @ [ConsoleLog (CleanedUp cleaned)]\<rparr>
          else m1))"

definition loadSessions :: "int \<Rightarrow> SessionManager \<Rightarrow> SessionManager" where
  "loadSessions now m =
     (case sessionsFile m of
        None \<Rightarrow> m\<lparr>console := console m @ [ConsoleLog NoSavedFile]\<rparr>
      | Some Unparsable \<Rightarrow> m\<lparr>console := console m @ [ConsoleError LoadFailed]\<rparr>
      | Some (Parsed data) \<Rightarrow>
          if version data \<noteq> 1
          then m\<lparr>console := console m @ [ConsoleWarn (UnknownVersion (version data))]\<rparr>
          else
            (let m1 = fold (\<lambda>sessionData acc.
                              (let loaded = fromData now sessionData
                               in acc\<lparr>sessions :=
                                        mapSet (getKey (chatId loaded) (threadAnchorId loaded))
                                          loaded (sessions acc)\<rparr>))
                        (psessions data) m
             in m1\<lparr>console := console m1 @
                          [ConsoleLog (LoadedSessions (length (psessions data)))]\<rparr>))"

section \<open>Notions used by the properties\<close>

text \<open>
  Two facts hold of every session the program builds: the resumption id is never the
  empty string (it is \<^verbatim>\<open>null\<close> or a non-empty id the backend issued), and the title is
  never empty (the constructor replaces an empty one by \<^verbatim>\<open>"Untitled"\<close>, and the one
  assignment to the field outside the class, in the voice handler, stores the first 50
  characters of a non-empty transcript).
\<close>

definition sessionInvariant :: "ThreadSession \<Rightarrow> bool" where
  "sessionInvariant s = (sessionId s \<noteq> Some [] \<and> title s \<noteq> [])"





text \<open>The messages of the calls of \<^verbatim>\<open>sendMessageStreaming\<close> in a list of actions.\<close>

fun sentMessages :: "action list \<Rightarrow> string list" where
  "sentMessages [] = []"
| "sentMessages (Sent m q # acts) = m # sentMessages acts"
| "sentMessages (a # acts) = sentMessages acts"

text \<open>
  The registry as the manager keeps it: no key occurs twice (it is a \<^verbatim>\<open>Map\<close>), and
  every session is stored under the key made of its own \<^verbatim>\<open>chatId\<close> and
  \<^verbatim>\<open>threadAnchorId\<close>.
\<close>

definition registryInv :: "SessionManager \<Rightarrow> bool" where
  "registryInv m =
     (distinct (map fst (sessions m)) \<and>
      (\<forall>p\<in>set (sessions m). fst p = getKey (chatId (snd p)) (threadAnchorId (snd p))))"

text \<open>The eviction candidates before sorting.\<close>

definition idleCandidates :: "SessionManager \<Rightarrow> int \<Rightarrow> ThreadSession list" where
  "idleCandidates m cid = filter (\<lambda>s. chatId s = cid \<and> \<not> isRunning s) (map snd (sessions m))"

text \<open>Whether the cleanup removes a session it visits.\<close>

definition expired :: "Config \<Rightarrow> int \<Rightarrow> ThreadSession \<Rightarrow> bool" where
  "expired cfg now s = (\<not> isRunning s \<and> now - activityTime s > SESSION_TIMEOUT_MS cfg)"





text \<open>
  The specification's words for the rule of the \<^verbatim>\<open>catch\<close> block, stated without the
  classifier of the code. An error is cancellation/abort-flavoured when the word
  \<^verbatim>\<open>cancel\<close> or the word \<^verbatim>\<open>abort\<close> stands somewhere in its text, each letter in
  either case: \<open>spelt w t\<close> says that the text \<open>t\<close> begins with the word \<open>w\<close>, given
  as the list of its letters in both cases, and \<open>mentions t w\<close> that the word stands
  somewhere in the text. A send has logically completed when the loop has taken the
  result event of the backend.
\<close>

fun spelt :: "(char \<times> char) list \<Rightarrow> string \<Rightarrow> bool" where
  "spelt [] t = True"
| "spelt (p # w) [] = False"
| "spelt (p # w) (c # t) = ((c = fst p \<or> c = snd p) \<and> spelt w t)"

fun mentions :: "string \<Rightarrow> (char \<times> char) list \<Rightarrow> bool" where
  "mentions [] w = (w = [])"
| "mentions (c # t) w = (spelt w (c # t) \<or> mentions t w)"

definition cancellationFlavoured :: "string \<Rightarrow> bool" where
  "cancellationFlavoured t =
     (mentions t (zip ''cancel'' ''CANCEL'') \<or> mentions t (zip ''abort'' ''ABORT''))"


section \<open>Sample inputs\<close>

text \<open>
  A configuration: a safety policy that refuses \<^verbatim>\<open>rm\<close> and quotes its target in the reason, a home
  directory as the allowed path, a throttle of half a second, a ceiling of two running
  sessions and a timeout of thirty minutes; and the same with a timeout above the clock.
\<close>

definition exampleConfig :: Config where
  "exampleConfig =
     \<lparr> checkCommandSafety =
         (\<lambda>command. if startsWith command ''rm ''
                    then (False, ''rm target outside allowed paths: '' @ drop 3 command)
                    else (True, [])),
       isPathAllowed = (\<lambda>p. startsWith p ''/home/bot/''),
       formatToolStatus = (\<lambda>toolName toolInput. toolName),
       TEMP_PATHS = [''/tmp/''],
       STREAMING_THROTTLE_MS = 500,
       THINKING_KEYWORDS = [''think''],
       THINKING_DEEP_KEYWORDS = [''think deeply''],
       WORKING_DIR = ''/home/bot'',
       MAX_CONCURRENT_SESSIONS = 2,
       SESSION_TIMEOUT_MS = 1800000 \<rparr>"

definition patientConfig :: Config where
  "patientConfig = exampleConfig\<lparr>SESSION_TIMEOUT_MS := 2000000000000\<rparr>"

text \<open>
  Sessions: just created, with a resumption id latched, and with an interrupt latched while claimed.
\<close>

definition freshSession :: ThreadSession where
  "freshSession = newThreadSession 7 100 (Some ''hello'') 1700000000000"

definition startedSession :: ThreadSession where
  "startedSession = freshSession\<lparr>sessionId := Some ''sess-1''\<rparr>"


text \<open>
  Backend streams: silent; one long text; two segments around a tool invocation and a result.
\<close>

definition quietEnv :: Env where
  "quietEnv = \<lparr> stream = [], datePrefix = ''[now] '', startTime = 1700000001000,
                 endTime = 1700000002000, closeThrows = None \<rparr>"











text \<open>
  Backend streams with a tool invocation that a safety check refuses: a Bash command
  alone, a Bash command after an ask-user invocation whose buttons were delivered, and a
  file read outside the allowed paths after such an invocation.
\<close>

definition unsafeBashEnv :: Env where
  "unsafeBashEnv =
     \<lparr> stream = [Ev (AssistantEvent (Some ''sess-1'')
                        [TextBlock ''I will clean up.'' 1700000001500,
                         ToolUseBlock ''Bash'' [(''command'', ''rm /etc/passwd'')] []])],
       datePrefix = ''[now] '', startTime = 1700000001000, endTime = 1700000002000,
       closeThrows = None \<rparr>"

definition askThenUnsafeBashEnv :: Env where
  "askThenUnsafeBashEnv =
     \<lparr> stream = [Ev (AssistantEvent (Some ''sess-1'')
                        [ToolUseBlock ''mcp__ask-user__ask_user'' [(''question'', ''Proceed?'')] [True],
                         ToolUseBlock ''Bash'' [(''command'', ''rm /var/run/abort.lock'')] []])],
       datePrefix = ''[now] '', startTime = 1700000001000, endTime = 1700000002000,
       closeThrows = None \<rparr>"

definition askThenBlockedReadEnv :: Env where
  "askThenBlockedReadEnv =
     \<lparr> stream = [Ev (AssistantEvent (Some ''sess-1'')
                        [ToolUseBlock ''mcp__ask-user__ask_user'' [(''question'', ''Proceed?'')] [True],
                         ToolUseBlock ''Read'' [(''file_path'', ''/etc/cancel-list.txt'')] []])],
       datePrefix = ''[now] '', startTime = 1700000001000, endTime = 1700000002000,
       closeThrows = None \<rparr>"








text \<open>
  A registry at the ceiling: two running and two idle sessions of chat 7, one of the idle
  ones with no \<^verbatim>\<open>lastActivity\<close>; and a registry whose file has version 2.
\<close>

definition runningSession :: "int \<Rightarrow> ThreadSession" where
  "runningSession anchor =
     (newThreadSession 7 anchor (Some ''busy'') 1700000000000)
       \<lparr>sessionId := Some ''sess-r'', isProcessing := True\<rparr>"

definition idleSession :: "int \<Rightarrow> int option \<Rightarrow> ThreadSession" where
  "idleSession anchor la =
     (newThreadSession 7 anchor (Some ''idle'') 1700000000000)
       \<lparr>sessionId := Some ''sess-i'', lastActivity := la\<rparr>"

definition fullRegistry :: SessionManager where
  "fullRegistry =
     \<lparr> sessions = [((7, 100), runningSession 100),
                    ((7, 101), idleSession 101 (Some 1700000000500)),
                    ((7, 102), runningSession 102),
                    ((7, 103), idleSession 103 None)],
       sessionsFile = None, console = [] \<rparr>"

definition version2Manager :: SessionManager where
  "version2Manager =
     \<lparr> sessions = [],
       sessionsFile = Some (Parsed \<lparr> version = 2,
                                      psessions = [toData exampleConfig 1700000005000 startedSession] \<rparr>),
       console = [] \<rparr>"

section \<open>Properties\<close>

subsection \<open>Thread session\<close>

text \<open>
  Claim C1. For every session state: when a backend call is active (the query is running
  and owns a cancellation handle), \<^verbatim>\<open>stop\<close> signals the handle and returns
  \<open>Stopped\<close>; otherwise, when the session is claimed (\<^verbatim>\<open>isProcessing\<close>), it sets
  \<^verbatim>\<open>stopRequested\<close> and returns \<open>Pending\<close>, so that a send started on the session
  as \<^verbatim>\<open>stop\<close> leaves it is cancelled; otherwise it returns \<open>NotRunning\<close> and leaves
  the session alone. A send that begins while \<^verbatim>\<open>stopRequested\<close> is set fails
  with the cancellation error; it opens no backend call (no query options are handed
  over, the running flag and the cancellation handle stay as they were), delivers
  nothing to the sink, and clears the flag.
\<close>

theorem stop_and_cancelled_send:
  "(isQueryRunning s \<and> abortController s \<noteq> None \<longrightarrow>
      fst (stop s) = Stopped \<and> abortController (snd (stop s)) = Some True) \<and>
   (\<not> (isQueryRunning s \<and> abortController s \<noteq> None) \<and> isProcessing s \<longrightarrow>
      fst (stop s) = Pending \<and> stopRequested (snd (stop s)) \<and>
      abortController (snd (stop s)) = abortController s \<and>
      outcome (sendMessageStreaming cfg env message hasCtx (snd (stop s))) = Inl QueryCancelled \<and>
      opened (sendMessageStreaming cfg env message hasCtx (snd (stop s))) = None) \<and>
   (\<not> (isQueryRunning s \<and> abortController s \<noteq> None) \<and> \<not> isProcessing s \<longrightarrow>
      stop s = (NotRunning, s)) \<and>
   (stopRequested s \<longrightarrow>
      outcome (sendMessageStreaming cfg env message hasCtx s) = Inl QueryCancelled \<and>
      opened (sendMessageStreaming cfg env message hasCtx s) = None \<and>
      delivered (sendMessageStreaming cfg env message hasCtx s) = [] \<and>
      isQueryRunning (session (sendMessageStreaming cfg env message hasCtx s)) = isQueryRunning s \<and>
      abortController (session (sendMessageStreaming cfg env message hasCtx s)) = abortController s \<and>
      \<not> stopRequested (session (sendMessageStreaming cfg env message hasCtx s)))"
  by (simp add: stop_def sendMessageStreaming_def beginSend_def Let_def)

text \<open>
  The three answers of \<^verbatim>\<open>stop\<close> on a running, a claimed and an idle session, and the
  send that follows a \<open>Pending\<close> answer.
\<close>

theorem stop_and_cancelled_send_witness:
  "fst (stop (freshSession\<lparr>isQueryRunning := True, abortController := Some False\<rparr>)) = Stopped \<and>
   abortController (snd (stop (freshSession\<lparr>isQueryRunning := True, abortController := Some False\<rparr>))) = Some True \<and>
   fst (stop (startProcessing freshSession)) = Pending \<and>
   stop freshSession = (NotRunning, freshSession) \<and>
   outcome (sendMessageStreaming exampleConfig quietEnv ''hi'' True (snd (stop (startProcessing freshSession)))) = Inl QueryCancelled \<and>
   opened (sendMessageStreaming exampleConfig quietEnv ''hi'' True (snd (stop (startProcessing freshSession)))) = None"
proof -
  let ?r = "freshSession\<lparr>isQueryRunning := True, abortController := Some False\<rparr>"
  let ?p = "startProcessing freshSession"
  have r: "isQueryRunning ?r \<and> abortController ?r \<noteq> None" by simp
  have p: "\<not> (isQueryRunning ?p \<and> abortController ?p \<noteq> None) \<and> isProcessing ?p"
    by (simp add: startProcessing_def freshSession_def newThreadSession_def)
  have i: "\<not> (isQueryRunning freshSession \<and> abortController freshSession \<noteq> None) \<and>
           \<not> isProcessing freshSession"
    by (simp add: freshSession_def newThreadSession_def)
  have q: "stopRequested (snd (stop ?p))"
    using stop_and_cancelled_send [of ?p] p by simp
  show ?thesis
    using stop_and_cancelled_send [of ?r] stop_and_cancelled_send [of ?p]
      stop_and_cancelled_send [of freshSession]
      stop_and_cancelled_send [of "snd (stop ?p)" exampleConfig quietEnv "''hi''" True] r p i q
    by simp
qed

text \<open>
  While a query runs, a backend call is active in the sense of \<^verbatim>\<open>stop\<close>, whatever other handlers call in between.
\<close>

lemma backend_call_active:
  "isQueryRunning (startQuery env s) \<and> abortController (startQuery env s) \<noteq> None"
  by (simp add: startQuery_def)

lemma backend_call_stays_active:
  assumes "isQueryRunning s \<and> abortController s \<noteq> None"
  shows "isQueryRunning (applyOp opn s) \<and> abortController (applyOp opn s) \<noteq> None"
  using assms
  by (cases opn) (auto simp: stop_def markInterrupt_def clearStopRequested_def)

text \<open>
  Claim C3. \<^verbatim>\<open>consumeInterruptFlag\<close> returns the latched interrupt flag and clears it.
  A second call returns \<^verbatim>\<open>false\<close> and changes nothing more, so the operation is
  idempotent after the first call. \<^verbatim>\<open>stopRequested\<close> is cleared whenever the call
  returns \<^verbatim>\<open>true\<close>, and is left as it was otherwise.
\<close>

theorem consumeInterruptFlag_read_and_clear:
  "fst (consumeInterruptFlag s) = wasInterruptedByNewMessage s \<and>
   wasInterruptedByNewMessage (snd (consumeInterruptFlag s)) = False \<and>
   fst (consumeInterruptFlag (snd (consumeInterruptFlag s))) = False \<and>
   snd (consumeInterruptFlag (snd (consumeInterruptFlag s))) = snd (consumeInterruptFlag s) \<and>
   stopRequested (snd (consumeInterruptFlag s)) =
     (\<not> wasInterruptedByNewMessage s \<and> stopRequested s)"
  by (simp add: consumeInterruptFlag_def Let_def)

subsection \<open>The loop of the streaming send\<close>

lemma beginSend_stopRequested [simp]:
  "stopRequested (snd (beginSend cfg env message s)) = stopRequested s"
  by (simp add: beginSend_def Let_def)

lemma send_after_check:
  assumes "\<not> stopRequested s"
  shows "sendMessageStreaming cfg env message hasCtx s =
           finishSend env (fst (beginSend cfg env message s))
             (runQuery cfg env hasCtx (snd (beginSend cfg env message s)))"
  using assms by (simp add: sendMessageStreaming_def Let_def)

lemma closeStream_snd [simp]: "snd (closeStream env r) = snd r"
  by (cases r) (auto simp: closeStream_def split: loop_exit.splits option.splits)

lemma closeStream_Exhausted [simp]:
  "(closeStream env r = (Exhausted, s, l)) = (r = (Exhausted, s, l))"
  by (cases r) (auto simp: closeStream_def split: loop_exit.splits option.splits)

lemma closeStream_Raised [simp]: "closeStream env (Raised e, s, l) = (Raised e, s, l)"
  by (simp add: closeStream_def)

lemma runQuery_snd:
  "snd (runQuery cfg env hasCtx s) =
     snd (consume cfg hasCtx (stream env) (startQuery env s, initLocals))"
  by (simp add: runQuery_def)

text \<open>
  A call by another handler commutes with the handling of a block: whether it arrives
  before the block or at one of its suspension points, the loop ends up in the same
  state. This is why \<open>Meanwhile\<close> can stand before the block.
\<close>

lemma acceptTool_applyOp:
  "acceptTool cfg hasCtx n i a (applyOp opn s, l) =
     (applyOp opn (fst (acceptTool cfg hasCtx n i a (s, l))), snd (acceptTool cfg hasCtx n i a (s, l)))"
  by (cases opn)
     (auto simp: acceptTool_def Let_def stop_def markInterrupt_def clearStopRequested_def)

lemma processBlock_applyOp:
  assumes "\<And>other. b \<noteq> Meanwhile other"
  shows "processBlock cfg hasCtx b (applyOp opn s, l) =
           (fst (processBlock cfg hasCtx b (s, l)),
            applyOp opn (fst (snd (processBlock cfg hasCtx b (s, l)))),
            snd (snd (processBlock cfg hasCtx b (s, l))))"
proof (cases b)
  case (Meanwhile other)
  with assms [of other] show ?thesis by simp
qed (simp_all add: Let_def acceptTool_applyOp)

lemma processBlocks_append:
  "processBlocks cfg hasCtx (bs @ cs) (s, l) =
     (case processBlocks cfg hasCtx bs (s, l) of
        (Some e, s1, l1) \<Rightarrow> (Some e, s1, l1)
      | (None, s1, l1) \<Rightarrow> processBlocks cfg hasCtx cs (s1, l1))"
proof (induction bs arbitrary: s l)
  case Nil
  then show ?case by simp
next
  case (Cons b bs)
  obtain r s1 l1 where p: "processBlock cfg hasCtx b (s, l) = (r, s1, l1)"
    by (cases "processBlock cfg hasCtx b (s, l)") auto
  with Cons.IH [of s1 l1] show ?case by (cases r) simp_all
qed

lemma consume_append:
  "consume cfg hasCtx (pre @ post) (s, l) =
     (case consume cfg hasCtx pre (s, l) of
        (Exhausted, s1, l1) \<Rightarrow> consume cfg hasCtx post (s1, l1)
      | (Broke, s1, l1) \<Rightarrow> (Broke, s1, l1)
      | (Raised e, s1, l1) \<Rightarrow> (Raised e, s1, l1))"
proof (induction pre arbitrary: s l)
  case Nil
  then show ?case by simp
next
  case (Cons it pre)
  show ?case
  proof (cases it)
    case (Ev e)
    show ?thesis
    proof (cases e)
      case (AssistantEvent sid bs)
      obtain r s2 l2 where p: "processBlocks cfg hasCtx bs (latchSessionId e s, l) = (r, s2, l2)"
        by (cases "processBlocks cfg hasCtx bs (latchSessionId e s, l)") auto
      with Cons.IH [of s2 l2] Ev AssistantEvent show ?thesis
        by (cases r) (simp_all add: Let_def)
    next
      case (ResultEvent sid u)
      with Ev Cons.IH show ?thesis by (simp add: Let_def)
    next
      case (OtherEvent sid)
      with Ev Cons.IH show ?thesis by (simp add: Let_def)
    qed
  next
    case (Interleaved opn)
    with Cons.IH show ?thesis by simp
  next
    case (Throws tx)
    then show ?thesis by simp
  qed
qed

subsection \<open>The session invariant\<close>

text \<open>
  The constructor, \<^verbatim>\<open>fromData\<close>, the session operations and the streaming send keep the
  session invariant, so the round trip below applies to every session the program
  reaches.
\<close>

lemma sessionInvariant_new: "sessionInvariant (newThreadSession cid anchor ttl now)"
  by (simp add: sessionInvariant_def newThreadSession_def split: option.splits)

lemma sessionInvariant_fromData: "sessionInvariant (fromData now d)"
  by (simp add: sessionInvariant_def fromData_def newThreadSession_def)

lemma sessionInvariant_update [simp]:
  "sessionInvariant (s\<lparr>lastMessage := a\<rparr>) = sessionInvariant s"
  "sessionInvariant (s\<lparr>abortController := b\<rparr>) = sessionInvariant s"
  "sessionInvariant (s\<lparr>isQueryRunning := c\<rparr>) = sessionInvariant s"
  "sessionInvariant (s\<lparr>stopRequested := d\<rparr>) = sessionInvariant s"
  "sessionInvariant (s\<lparr>queryStarted := e\<rparr>) = sessionInvariant s"
  "sessionInvariant (s\<lparr>currentTool := f\<rparr>) = sessionInvariant s"
  "sessionInvariant (s\<lparr>lastTool := g\<rparr>) = sessionInvariant s"
  "sessionInvariant (s\<lparr>lastError := h\<rparr>) = sessionInvariant s"
  "sessionInvariant (s\<lparr>lastErrorTime := i\<rparr>) = sessionInvariant s"
  "sessionInvariant (s\<lparr>lastUsage := j\<rparr>) = sessionInvariant s"
  "sessionInvariant (s\<lparr>lastActivity := k\<rparr>) = sessionInvariant s"
  "sessionInvariant (s\<lparr>isProcessing := n\<rparr>) = sessionInvariant s"
  "sessionInvariant (s\<lparr>wasInterruptedByNewMessage := p\<rparr>) = sessionInvariant s"
  by (simp_all add: sessionInvariant_def)

lemma sessionInvariant_ops:
  assumes "sessionInvariant s"
  shows "sessionInvariant (snd (stop s))"
    and "sessionInvariant (snd (consumeInterruptFlag s))"
    and "sessionInvariant (markInterrupt s)"
    and "sessionInvariant (clearStopRequested s)"
    and "sessionInvariant (startProcessing s)"
    and "sessionInvariant (stopProcessing s)"
    and "sessionInvariant (kill s)"
  using assms
  by (simp_all add: stop_def consumeInterruptFlag_def markInterrupt_def clearStopRequested_def
        startProcessing_def stopProcessing_def Let_def)
     (simp add: kill_def sessionInvariant_def)

lemma sessionInvariant_applyOp: "sessionInvariant s \<Longrightarrow> sessionInvariant (applyOp opn s)"
  by (cases opn) (simp_all add: sessionInvariant_ops)

lemma sessionInvariant_latch: "sessionInvariant s \<Longrightarrow> sessionInvariant (latchSessionId e s)"
  by (auto simp: latchSessionId_def sessionInvariant_def truthy_def split: option.splits)

lemma sessionInvariant_processBlock:
  "sessionInvariant s \<Longrightarrow> sessionInvariant (fst (snd (processBlock cfg hasCtx b (s, l))))"
  by (cases b) (simp_all add: Let_def acceptTool_def sessionInvariant_applyOp)

lemma sessionInvariant_processBlocks:
  "sessionInvariant s \<Longrightarrow> sessionInvariant (fst (snd (processBlocks cfg hasCtx bs (s, l))))"
proof (induction bs arbitrary: s l)
  case Nil
  then show ?case by simp
next
  case (Cons b bs)
  obtain r s1 l1 where p: "processBlock cfg hasCtx b (s, l) = (r, s1, l1)"
    by (cases "processBlock cfg hasCtx b (s, l)") auto
  with sessionInvariant_processBlock [OF Cons.prems, of cfg hasCtx b l] have "sessionInvariant s1"
    by simp
  with Cons.IH [of s1 l1] p show ?case by (cases r) simp_all
qed

lemma sessionInvariant_consume:
  "sessionInvariant s \<Longrightarrow> sessionInvariant (fst (snd (consume cfg hasCtx its (s, l))))"
proof (induction its arbitrary: s l)
  case Nil
  then show ?case by simp
next
  case (Cons it its)
  show ?case
  proof (cases it)
    case (Ev e)
    have ls: "sessionInvariant (latchSessionId e s)"
      using Cons.prems by (rule sessionInvariant_latch)
    show ?thesis
    proof (cases e)
      case (AssistantEvent sid bs)
      obtain r s2 l2 where p: "processBlocks cfg hasCtx bs (latchSessionId e s, l) = (r, s2, l2)"
        by (cases "processBlocks cfg hasCtx bs (latchSessionId e s, l)") auto
      with sessionInvariant_processBlocks [OF ls, of cfg hasCtx bs l] have "sessionInvariant s2"
        by simp
      with Cons.IH [of s2 l2] p Ev AssistantEvent Cons.prems show ?thesis
        by (cases r) (simp_all add: Let_def)
    next
      case (ResultEvent sid u)
      have "sessionInvariant (case u of None \<Rightarrow> latchSessionId (ResultEvent sid u) s
                              | Some v \<Rightarrow> (latchSessionId (ResultEvent sid u) s)\<lparr>lastUsage := Some v\<rparr>)"
        using ls ResultEvent by (cases u) simp_all
      from Cons.IH [OF this] Ev ResultEvent Cons.prems show ?thesis
        by (simp add: Let_def)
    next
      case (OtherEvent sid)
      with Ev Cons.prems Cons.IH [OF ls] show ?thesis by (simp add: Let_def)
    qed
  next
    case (Interleaved opn)
    with Cons.IH [OF sessionInvariant_applyOp [OF Cons.prems]] show ?thesis by simp
  next
    case (Throws tx)
    with Cons.prems show ?thesis by simp
  qed
qed

lemma sessionInvariant_beginSend:
  "sessionInvariant s \<Longrightarrow> sessionInvariant (snd (beginSend cfg env message s))"
  by (simp add: beginSend_def Let_def) (simp add: sessionInvariant_def)

lemma sessionInvariant_complete:
  "sessionInvariant s \<Longrightarrow> sessionInvariant (fst (snd (complete now s l)))"
  by (simp add: complete_def Let_def)

lemma sessionInvariant_send:
  assumes "sessionInvariant s"
  shows "sessionInvariant (session (sendMessageStreaming cfg env message hasCtx s))"
proof (cases "stopRequested s")
  case True
  with sessionInvariant_beginSend [OF assms, of cfg env message] show ?thesis
    by (simp add: sendMessageStreaming_def Let_def)
next
  case False
  let ?q = "runQuery cfg env hasCtx (snd (beginSend cfg env message s))"
  obtain ex s4 l where q: "?q = (ex, s4, l)" by (cases ?q) auto
  have "sessionInvariant (startQuery env (snd (beginSend cfg env message s)))"
    using sessionInvariant_beginSend [OF assms, of cfg env message] by (simp add: startQuery_def)
  from sessionInvariant_consume [OF this, of cfg hasCtx "stream env" initLocals]
  have "sessionInvariant (fst (snd ?q))" by (simp add: runQuery_snd)
  with q have s4: "sessionInvariant s4" by simp
  then have f: "sessionInvariant (finallyBlock s4)" by (simp add: finallyBlock_def)
  obtain resp s5 l5 where c: "complete (endTime env) (finallyBlock s4) l = (resp, s5, l5)"
    by (cases "complete (endTime env) (finallyBlock s4) l") auto
  with sessionInvariant_complete [OF f, of "endTime env" l] have s5: "sessionInvariant s5" by simp
  from False q c s4 s5 show ?thesis
    by (cases ex) (simp_all add: send_after_check finishSend_def finallyBlock_def)
qed

subsection \<open>Serialization round trip\<close>

text \<open>
  Claim C5, as stated, fails for a session that has no \<^verbatim>\<open>lastActivity\<close> yet (here a
  session whose first send has latched a resumption id and has not completed):
  \<^verbatim>\<open>toData\<close> writes the time of serialization in its place, and \<^verbatim>\<open>fromData\<close> reads
  that time back.
\<close>

theorem roundtrip_lastActivity_counterexample:
  "lastActivity (fromData 1700000009000 (toData exampleConfig 1700000005000 startedSession))
     \<noteq> lastActivity startedSession"
  by (simp add: fromData_def toData_def startedSession_def freshSession_def newThreadSession_def)

text \<open>
  Claim C5, amended. For every session, \<^verbatim>\<open>toData\<close> followed by \<^verbatim>\<open>fromData\<close>
  reproduces \<^verbatim>\<open>sessionId\<close>, \<^verbatim>\<open>chatId\<close>, \<^verbatim>\<open>threadAnchorId\<close>, \<^verbatim>\<open>title\<close> and
  \<^verbatim>\<open>createdAt\<close>; it reproduces \<^verbatim>\<open>lastActivity\<close> when that is set, and puts the time
  of serialization there when it is \<^verbatim>\<open>null\<close>. The reconstructed session is idle:
  neither running nor processing, with no cancellation handle and no stop request,
  whatever the run state of the original was.
\<close>

theorem toData_fromData_roundtrip:
  assumes "sessionInvariant s"
  shows "sessionId (fromData t (toData cfg now s)) = sessionId s \<and>
         chatId (fromData t (toData cfg now s)) = chatId s \<and>
         threadAnchorId (fromData t (toData cfg now s)) = threadAnchorId s \<and>
         title (fromData t (toData cfg now s)) = title s \<and>
         createdAt (fromData t (toData cfg now s)) = createdAt s \<and>
         lastActivity (fromData t (toData cfg now s)) =
           Some (case lastActivity s of Some a \<Rightarrow> a | None \<Rightarrow> now) \<and>
         \<not> isRunning (fromData t (toData cfg now s)) \<and>
         \<not> isQueryRunning (fromData t (toData cfg now s)) \<and>
         \<not> isProcessing (fromData t (toData cfg now s)) \<and>
         abortController (fromData t (toData cfg now s)) = None \<and>
         \<not> stopRequested (fromData t (toData cfg now s))"
  using assms
  by (cases "sessionId s")
     (simp_all add: sessionInvariant_def fromData_def toData_def newThreadSession_def
        isRunning_def)

theorem toData_fromData_roundtrip_witness:
  "sessionInvariant (startedSession\<lparr>lastActivity := Some 1700000003000, isProcessing := True\<rparr>) \<and>
   sessionId (fromData 1700000009000 (toData exampleConfig 1700000005000
      (startedSession\<lparr>lastActivity := Some 1700000003000, isProcessing := True\<rparr>))) = Some ''sess-1'' \<and>
   lastActivity (fromData 1700000009000 (toData exampleConfig 1700000005000
      (startedSession\<lparr>lastActivity := Some 1700000003000, isProcessing := True\<rparr>))) = Some 1700000003000 \<and>
   \<not> isRunning (fromData 1700000009000 (toData exampleConfig 1700000005000
      (startedSession\<lparr>lastActivity := Some 1700000003000, isProcessing := True\<rparr>)))"
proof -
  let ?s = "startedSession\<lparr>lastActivity := Some 1700000003000, isProcessing := True\<rparr>"
  have inv: "sessionInvariant ?s"
    by (simp add: sessionInvariant_def startedSession_def freshSession_def newThreadSession_def)
  have sid: "sessionId ?s = Some ''sess-1''"
    by (simp add: startedSession_def)
  from toData_fromData_roundtrip [OF inv, of 1700000009000 exampleConfig 1700000005000] inv sid
  show ?thesis by simp
qed

subsection \<open>Segments\<close>

































subsection \<open>Errors of the streaming send\<close>

text \<open>
  The classifier of the \<^verbatim>\<open>catch\<close> block agrees with the specification's notion of a
  cancellation/abort-flavoured error: lower-casing the text and looking for the two
  words finds them in whatever letter case they stand.
\<close>

lemma toLowerChar_iff:
  assumes "(of_char lo :: nat) = of_char up + 32" and "65 \<le> (of_char up :: nat)" and "(of_char up :: nat) \<le> 90"
  shows "(toLowerChar c = lo) = (c = lo \<or> c = up)"
proof -
  have lt: "(of_char c :: nat) < 256" by simp
  have a: "(toLowerChar c = lo) = ((of_char (toLowerChar c) :: nat) = of_char lo)" by simp
  have b: "(of_char (toLowerChar c) :: nat) =
             (if 65 \<le> (of_char c :: nat) \<and> (of_char c :: nat) \<le> 90 then of_char c + 32 else of_char c)"
    using lt by (simp add: toLowerChar_def Let_def)
  have c1: "(c = lo) = ((of_char c :: nat) = of_char lo)" by simp
  have c2: "(c = up) = ((of_char c :: nat) = of_char up)" by simp
  show ?thesis unfolding a b c1 c2 using assms by auto
qed

lemma startsWith_lower:
  assumes "\<forall>p\<in>set w. \<forall>c. (toLowerChar c = fst p) = (c = fst p \<or> c = snd p)"
  shows "startsWith (map toLowerChar t) (map fst w) = spelt w t"
  using assms by (induction w t rule: spelt.induct) auto

lemma includes_lower:
  assumes "\<forall>p\<in>set w. \<forall>c. (toLowerChar c = fst p) = (c = fst p \<or> c = snd p)"
  shows "includes_str (map toLowerChar t) (map fst w) = mentions t w"
proof (induction t)
  case Nil
  then show ?case by simp
next
  case (Cons c t)
  from startsWith_lower [OF assms, of "c # t"] Cons show ?case by simp
qed

lemma toLowerChar_letters:
  "(toLowerChar c = CHR ''a'') = (c = CHR ''a'' \<or> c = CHR ''A'')"
  "(toLowerChar c = CHR ''b'') = (c = CHR ''b'' \<or> c = CHR ''B'')"
  "(toLowerChar c = CHR ''c'') = (c = CHR ''c'' \<or> c = CHR ''C'')"
  "(toLowerChar c = CHR ''e'') = (c = CHR ''e'' \<or> c = CHR ''E'')"
  "(toLowerChar c = CHR ''l'') = (c = CHR ''l'' \<or> c = CHR ''L'')"
  "(toLowerChar c = CHR ''n'') = (c = CHR ''n'' \<or> c = CHR ''N'')"
  "(toLowerChar c = CHR ''o'') = (c = CHR ''o'' \<or> c = CHR ''O'')"
  "(toLowerChar c = CHR ''r'') = (c = CHR ''r'' \<or> c = CHR ''R'')"
  "(toLowerChar c = CHR ''t'') = (c = CHR ''t'' \<or> c = CHR ''T'')"
  by (rule toLowerChar_iff; simp)+

lemma isCleanupError_flavoured: "isCleanupError e = cancellationFlavoured (String_of e)"
proof -
  have 1: "\<forall>p\<in>set (zip ''cancel'' ''CANCEL''). \<forall>c. (toLowerChar c = fst p) = (c = fst p \<or> c = snd p)"
    by (simp add: toLowerChar_letters)
  have 2: "\<forall>p\<in>set (zip ''abort'' ''ABORT''). \<forall>c. (toLowerChar c = fst p) = (c = fst p \<or> c = snd p)"
    by (simp add: toLowerChar_letters)
  have m1: "map fst (zip ''cancel'' ''CANCEL'') = ''cancel''" by simp
  have m2: "map fst (zip ''abort'' ''ABORT'') = ''abort''" by simp
  show ?thesis
    using includes_lower [OF 1, of "String_of e"] includes_lower [OF 2, of "String_of e"]
    unfolding m1 m2
    by (simp add: isCleanupError_def cancellationFlavoured_def toLowerCase_def Let_def)
qed












subsection \<open>The safety gate\<close>

lemma unsafe_bash_block:
  assumes "checkCommandSafety cfg (inputField toolInput ''command'') = (False, reason)"
  shows "processBlock cfg hasCtx (ToolUseBlock ''Bash'' toolInput answers) (s, l) =
           (Some (UnsafeCommandBlocked reason), s,
            l\<lparr>sink := sink l @ [Status KTool (''BLOCKED: '' @ reason) None]\<rparr>)"
  using assms by (simp add: Let_def statusCallback_def)

lemma complete_sink:
  "\<exists>tl. sink (snd (snd (complete now s l))) = sink l @ tl \<and> (\<forall>e\<in>set tl. kind e \<noteq> KTool)"
  by (simp add: complete_def Let_def statusCallback_def)

text \<open>
  Take a Bash tool invocation that the loop reaches (the items before its message are
  consumed without leaving the loop, no stop is pending when the message arrives, and
  the blocks before it in the message raise nothing) and whose command fails the safety
  check with some reason. Then a \<^verbatim>\<open>tool\<close> event describing the block is delivered to
  the sink next, and no further \<^verbatim>\<open>tool\<close> event follows it: the invocation is never
  reported as accepted. The send fails with the safety error, the block event being the
  last event delivered, in every case but one: that the text of the error is
  cancellation/abort-flavoured while the send has completed, awaits a user choice, or
  \<^verbatim>\<open>stopRequested\<close> is set.
\<close>

lemma unsafe_bash_blocked:
  assumes "\<not> stopRequested s"
    and "stream env = pre @ Ev (AssistantEvent sid (bs @ ToolUseBlock ''Bash'' toolInput answers # bs')) # post"
    and "consume cfg hasCtx pre (startQuery env (snd (beginSend cfg env message s)), initLocals) =
           (Exhausted, s1, l1)"
    and "\<not> stopRequested s1"
    and "processBlocks cfg hasCtx bs
           (latchSessionId (AssistantEvent sid (bs @ ToolUseBlock ''Bash'' toolInput answers # bs')) s1, l1) =
           (None, s2, l2)"
    and "checkCommandSafety cfg (inputField toolInput ''command'') = (False, reason)"
  shows "(\<exists>tl. delivered (sendMessageStreaming cfg env message hasCtx s) =
                 sink l2 @ Status KTool (''BLOCKED: '' @ reason) None # tl \<and>
               (\<forall>e\<in>set tl. kind e \<noteq> KTool)) \<and>
         (\<not> (cancellationFlavoured (String_of (UnsafeCommandBlocked reason)) \<and>
             (queryCompleted l2 \<or> askUserTriggered l2 \<or> stopRequested s2)) \<longrightarrow>
            outcome (sendMessageStreaming cfg env message hasCtx s) =
              Inl (UnsafeCommandBlocked reason) \<and>
            delivered (sendMessageStreaming cfg env message hasCtx s) =
              sink l2 @ [Status KTool (''BLOCKED: '' @ reason) None])"
proof -
  let ?ev = "AssistantEvent sid (bs @ ToolUseBlock ''Bash'' toolInput answers # bs')"
  let ?l3 = "l2\<lparr>sink := sink l2 @ [Status KTool (''BLOCKED: '' @ reason) None]\<rparr>"
  have blocks: "processBlocks cfg hasCtx (bs @ ToolUseBlock ''Bash'' toolInput answers # bs')
                  (latchSessionId ?ev s1, l1) = (Some (UnsafeCommandBlocked reason), s2, ?l3)"
    using assms(5) unsafe_bash_block [OF assms(6), of hasCtx answers s2 l2]
    by (simp add: processBlocks_append del: processBlock.simps)
  have "consume cfg hasCtx (Ev ?ev # post) (s1, l1) = (Raised (UnsafeCommandBlocked reason), s2, ?l3)"
    using assms(4) blocks by (simp add: Let_def)
  then have run: "runQuery cfg env hasCtx (snd (beginSend cfg env message s)) =
                    (Raised (UnsafeCommandBlocked reason), s2, ?l3)"
    using assms(2,3) by (simp add: runQuery_def consume_append)
  obtain resp s5 l5 where c: "complete (endTime env) (finallyBlock s2) ?l3 = (resp, s5, l5)"
    by (cases "complete (endTime env) (finallyBlock s2) ?l3") auto
  obtain tl where tl: "sink l5 = sink ?l3 @ tl" "\<forall>e\<in>set tl. kind e \<noteq> KTool"
    using complete_sink [of "endTime env" "finallyBlock s2" ?l3] c by auto
  have sup: "suppressed (UnsafeCommandBlocked reason) s2 ?l3 =
               (cancellationFlavoured (String_of (UnsafeCommandBlocked reason)) \<and>
                (queryCompleted l2 \<or> askUserTriggered l2 \<or> stopRequested s2))"
    by (simp add: suppressed_def isCleanupError_flavoured)
  show ?thesis
  proof (cases "suppressed (UnsafeCommandBlocked reason) s2 ?l3")
    case True
    have "delivered (sendMessageStreaming cfg env message hasCtx s) = sink l5"
      using True run c assms(1) by (simp add: send_after_check finishSend_def)
    with True sup tl show ?thesis by simp
  next
    case False
    have o: "outcome (sendMessageStreaming cfg env message hasCtx s) = Inl (UnsafeCommandBlocked reason)"
      using False run assms(1) by (simp add: send_after_check finishSend_def)
    have d: "delivered (sendMessageStreaming cfg env message hasCtx s) = sink ?l3"
      using False run assms(1) by (simp add: send_after_check finishSend_def)
    from o d show ?thesis by simp
  qed
qed

text \<open>
  Claim C7. The code raises the safety error inside the \<^verbatim>\<open>try\<close> statement, so the
  \<^verbatim>\<open>catch\<close> block applies to it the rule it has for cancellation errors of the
  backend, which looks for \<^verbatim>\<open>cancel\<close> and \<^verbatim>\<open>abort\<close> anywhere in the text. The first
  input is an ordinary refusal: the send fails, as the claim says. In the second the
  assistant message asks the user first (the buttons are delivered, so the send awaits a
  choice) and then invokes Bash on a path with \<^verbatim>\<open>abort\<close> in its name; the policy of
  \<open>exampleConfig\<close> refuses the command with a reason that quotes the path; the block is
  reported to the sink, but the error is swallowed and the send returns normally, with
  no error recorded. The file check is caught the same way, with an error text that
  comes from the source alone: the third input reads a file with \<^verbatim>\<open>cancel\<close> in its
  name.
\<close>

theorem unsafe_bash_swallowed:
  "fst (checkCommandSafety exampleConfig (inputField [(''command'', ''rm /etc/passwd'')] ''command'')) =
     False \<and>
   outcome (sendMessageStreaming exampleConfig unsafeBashEnv ''tidy up'' True freshSession) =
     Inl (UnsafeCommandBlocked ''rm target outside allowed paths: /etc/passwd'') \<and>
   delivered (sendMessageStreaming exampleConfig unsafeBashEnv ''tidy up'' True freshSession) =
     [Status KTool ''BLOCKED: rm target outside allowed paths: /etc/passwd'' None] \<and>
   checkCommandSafety exampleConfig
     (inputField [(''command'', ''rm /var/run/abort.lock'')] ''command'') =
     (False, ''rm target outside allowed paths: /var/run/abort.lock'') \<and>
   outcome (sendMessageStreaming exampleConfig askThenUnsafeBashEnv ''tidy up'' True freshSession) =
     Inr ''[Waiting for user selection]'' \<and>
   delivered (sendMessageStreaming exampleConfig askThenUnsafeBashEnv ''tidy up'' True freshSession) =
     [Status KTool ''BLOCKED: rm target outside allowed paths: /var/run/abort.lock'' None,
      Status KDone [] None] \<and>
   lastError (session (sendMessageStreaming exampleConfig askThenUnsafeBashEnv ''tidy up'' True
                         freshSession)) = None \<and>
   isPathAllowed exampleConfig ''/etc/cancel-list.txt'' = False \<and>
   outcome (sendMessageStreaming exampleConfig askThenBlockedReadEnv ''tidy up'' True freshSession) =
     Inr ''[Waiting for user selection]'' \<and>
   delivered (sendMessageStreaming exampleConfig askThenBlockedReadEnv ''tidy up'' True freshSession) =
     [Status KTool ''Access denied: /etc/cancel-list.txt'' None, Status KDone [] None]"
  by code_simp

subsection \<open>Retry after a crash\<close>




lemma sentMessages_append: "sentMessages (xs @ ys) = sentMessages xs @ sentMessages ys"
  by (induction xs rule: sentMessages.induct) simp_all





lemma kill_stopRequested [simp]: "stopRequested (kill s) = stopRequested s"
  by (simp add: kill_def)




subsection \<open>The registry\<close>



lemma mapSet_keys: "fst ` set (mapSet k v ps) = insert k (fst ` set ps)"
  by (induction ps) auto

lemma distinct_mapSet: "distinct (map fst ps) \<Longrightarrow> distinct (map fst (mapSet k v ps))"
  by (induction ps) (auto simp: mapSet_keys)

lemma set_mapSet_subset: "set (mapSet k v ps) \<subseteq> insert (k, v) (set ps)"
  by (induction ps) auto



lemma distinct_mapDelete: "distinct (map fst ps) \<Longrightarrow> distinct (map fst (mapDelete k ps))"
  by (simp add: mapDelete_def distinct_map_filter)

lemma map_of_None_keys: "(map_of ps k = None) = (k \<notin> fst ` set ps)"
  by (simp add: map_of_eq_None_iff)

lemma mapDelete_absent: "k \<notin> fst ` set ps \<Longrightarrow> mapDelete k ps = ps"
proof -
  assume "k \<notin> fst ` set ps"
  then have "\<forall>p\<in>set ps. fst p \<noteq> k" by force
  then show ?thesis by (simp add: mapDelete_def filter_id_conv)
qed


lemma saveSessions_sessions [simp]: "sessions (saveSessions cfg now m) = sessions m"
  by (simp add: saveSessions_def Let_def)

lemma removeSession_sessions:
  "sessions (snd (removeSession cfg now cid anchor m)) = mapDelete (getKey cid anchor) (sessions m)"
proof (cases "map_of (sessions m) (getKey cid anchor)")
  case None
  then have "getKey cid anchor \<notin> fst ` set (sessions m)" by (simp add: map_of_None_keys)
  then have "\<forall>p\<in>set (sessions m). fst p \<noteq> getKey cid anchor" by force
  then have "mapDelete (getKey cid anchor) (sessions m) = sessions m"
    by (simp add: mapDelete_def filter_id_conv)
  with None show ?thesis by (simp add: removeSession_def Let_def)
next
  case (Some a)
  then show ?thesis by (simp add: removeSession_def Let_def)
qed

lemma idleSessions_candidates: "idleSessions m cid = sort_key activityTime (idleCandidates m cid)"
  by (simp add: idleSessions_def idleCandidates_def)

lemma idleSessions_console [simp]: "idleSessions (m\<lparr>console := c\<rparr>) cid = idleSessions m cid"
  by (simp add: idleSessions_def)

lemma sort_key_hd_min:
  assumes "sort_key f xs = y # ys"
  shows "y \<in> set xs \<and> (\<forall>x\<in>set xs. f y \<le> f x)"
proof -
  have "set (sort_key f xs) = set xs" by simp
  with assms have s: "set xs = insert y (set ys)" by simp
  have "sorted (map f (sort_key f xs))" by (rule sorted_sort_key)
  with assms have "\<forall>x\<in>set ys. f y \<le> f x" by simp
  with s show ?thesis by auto
qed

lemma evictIfFull_below:
  assumes "\<not> int (length (filter isRunning (getSessionsForChat m cid))) \<ge> MAX_CONCURRENT_SESSIONS cfg"
  shows "evictIfFull cfg now cid m = m"
  using assms by (simp add: evictIfFull_def)

lemma evictIfFull_none_idle:
  assumes "int (length (filter isRunning (getSessionsForChat m cid))) \<ge> MAX_CONCURRENT_SESSIONS cfg"
    and "idleSessions m cid = []"
  shows "sessions (evictIfFull cfg now cid m) = sessions m"
  using assms by (simp add: evictIfFull_def)

lemma evictIfFull_oldest:
  assumes "int (length (filter isRunning (getSessionsForChat m cid))) \<ge> MAX_CONCURRENT_SESSIONS cfg"
    and "idleSessions m cid = oldest # others"
  shows "sessions (evictIfFull cfg now cid m) =
           mapDelete (getKey (chatId oldest) (threadAnchorId oldest)) (sessions m)"
proof -
  let ?m1 = "m\<lparr>console := console m @ [ConsoleWarn (MaxConcurrentReached (MAX_CONCURRENT_SESSIONS cfg))]\<rparr>"
  have "sessions (snd (removeSession cfg now (chatId oldest) (threadAnchorId oldest) ?m1)) =
          mapDelete (getKey (chatId oldest) (threadAnchorId oldest)) (sessions m)"
    by (simp add: removeSession_sessions)
  with assms show ?thesis by (simp add: evictIfFull_def Let_def)
qed

lemma getOrCreateSession_new:
  assumes "map_of (sessions m) (getKey cid anchor) = None"
  shows "fst (getOrCreateSession cfg now cid anchor ttl m) = newThreadSession cid anchor ttl now"
    and "sessions (snd (getOrCreateSession cfg now cid anchor ttl m)) =
           mapSet (getKey cid anchor) (newThreadSession cid anchor ttl now)
             (sessions (evictIfFull cfg now cid m))"
  using assms by (simp_all add: getOrCreateSession_def Let_def)


text \<open>
  The operations of the manager keep the registry invariant, which holds of the empty registry.
\<close>

lemma registryInv_empty: "registryInv \<lparr> sessions = [], sessionsFile = f, console = c \<rparr>"
  by (simp add: registryInv_def)

lemma registryInv_sessions_eq:
  assumes "registryInv m" and "sessions m' = sessions m"
  shows "registryInv m'"
  using assms by (simp add: registryInv_def)

lemma registryInv_filter:
  assumes "registryInv m" and "sessions m' = filter P (sessions m)"
  shows "registryInv m'"
  using assms by (simp add: registryInv_def distinct_map_filter)

lemma registryInv_mapSet:
  assumes "registryInv m" and "k = getKey (chatId v) (threadAnchorId v)"
  shows "registryInv (m\<lparr>sessions := mapSet k v (sessions m)\<rparr>)"
proof -
  have "\<forall>p\<in>set (mapSet k v (sessions m)). fst p = getKey (chatId (snd p)) (threadAnchorId (snd p))"
    using assms set_mapSet_subset [of k v "sessions m"] by (auto simp: registryInv_def)
  with assms show ?thesis by (simp add: registryInv_def distinct_mapSet)
qed

lemma registryInv_evictIfFull:
  assumes "registryInv m"
  shows "registryInv (evictIfFull cfg now cid m)"
proof (cases "int (length (filter isRunning (getSessionsForChat m cid))) \<ge> MAX_CONCURRENT_SESSIONS cfg")
  case True
  show ?thesis
  proof (cases "idleSessions m cid")
    case Nil
    with True assms show ?thesis by (simp add: registryInv_def evictIfFull_none_idle)
  next
    case (Cons oldest others)
    with True assms show ?thesis
      by (simp add: registryInv_def evictIfFull_oldest distinct_mapDelete) (simp add: mapDelete_def)
  qed
next
  case False
  with assms show ?thesis by (simp add: evictIfFull_below)
qed

lemma registryInv_getOrCreateSession:
  assumes "registryInv m"
  shows "registryInv (snd (getOrCreateSession cfg now cid anchor ttl m))"
proof (cases "map_of (sessions m) (getKey cid anchor)")
  case None
  let ?c = "newThreadSession cid anchor ttl now"
  have k: "getKey cid anchor = getKey (chatId ?c) (threadAnchorId ?c)"
    by (simp add: newThreadSession_def)
  from registryInv_mapSet [OF registryInv_evictIfFull [OF assms] k]
  have "registryInv ((evictIfFull cfg now cid m)
          \<lparr>sessions := mapSet (getKey cid anchor) ?c (sessions (evictIfFull cfg now cid m))\<rparr>)" .
  then show ?thesis
    by (rule registryInv_sessions_eq) (simp add: getOrCreateSession_new(2) [OF None])
next
  case (Some a)
  with assms show ?thesis by (simp add: getOrCreateSession_def Let_def)
qed

lemma registryInv_removeSession:
  assumes "registryInv m"
  shows "registryInv (snd (removeSession cfg now cid anchor m))"
  using assms
  by (rule registryInv_filter) (simp add: removeSession_sessions mapDelete_def)

lemma cleanupLoop_sessions:
  assumes "\<forall>p\<in>set todo. fst p = getKey (chatId (snd p)) (threadAnchorId (snd p))"
    and "distinct (map fst todo)"
  shows "sessions (fst (cleanupLoop cfg now todo (m, n))) =
           filter (\<lambda>p. fst p \<notin> fst ` {q \<in> set todo. expired cfg now (snd q)}) (sessions m)"
  using assms
proof (induction todo arbitrary: m n)
  case Nil
  then show ?case by simp
next
  case (Cons entry rest)
  let ?s = "snd entry"
  let ?k = "getKey (chatId ?s) (threadAnchorId ?s)"
  from Cons.prems have k: "fst entry = ?k" by simp
  from Cons.prems have nk: "?k \<notin> fst ` set rest" using k by auto
  from Cons.prems have r1: "\<forall>p\<in>set rest. fst p = getKey (chatId (snd p)) (threadAnchorId (snd p))"
    and r2: "distinct (map fst rest)" by simp_all
  show ?case
  proof (cases "expired cfg now ?s")
    case True
    then have step: "cleanupLoop cfg now (entry # rest) (m, n) =
        cleanupLoop cfg now rest (snd (removeSession cfg now (chatId ?s) (threadAnchorId ?s) m), n + 1)"
      using nk by (simp add: expired_def Let_def mapDelete_absent)
    have "{q \<in> set (entry # rest). expired cfg now (snd q)} =
            insert entry {q \<in> set rest. expired cfg now (snd q)}"
      using True by auto
    then have "fst ` {q \<in> set (entry # rest). expired cfg now (snd q)} =
                 insert (fst entry) (fst ` {q \<in> set rest. expired cfg now (snd q)})"
      by simp
    then have e: "fst ` {q \<in> set (entry # rest). expired cfg now (snd q)} =
               insert ?k (fst ` {q \<in> set rest. expired cfg now (snd q)})"
      using k by simp
    show ?thesis
      unfolding step e
      by (simp add: Cons.IH [OF r1 r2] removeSession_sessions mapDelete_def conj_commute)
  next
    case False
    then have step: "cleanupLoop cfg now (entry # rest) (m, n) = cleanupLoop cfg now rest (m, n)"
      by (auto simp: expired_def Let_def)
    have e: "fst ` {q \<in> set (entry # rest). expired cfg now (snd q)} =
               fst ` {q \<in> set rest. expired cfg now (snd q)}"
      using False by auto
    show ?thesis
      unfolding step e by (rule Cons.IH [OF r1 r2])
  qed
qed

lemma cleanupInactiveSessions_sessions:
  assumes "registryInv m"
  shows "sessions (snd (cleanupInactiveSessions cfg now m)) =
           filter (\<lambda>p. \<not> expired cfg now (snd p)) (sessions m)"
proof -
  from assms have a: "\<forall>p\<in>set (sessions m). fst p = getKey (chatId (snd p)) (threadAnchorId (snd p))"
    and d: "distinct (map fst (sessions m))" by (simp_all add: registryInv_def)
  have "\<And>p. p \<in> set (sessions m) \<Longrightarrow>
          (fst p \<notin> fst ` {q \<in> set (sessions m). expired cfg now (snd q)}) = (\<not> expired cfg now (snd p))"
  proof -
    fix p assume p: "p \<in> set (sessions m)"
    have "\<And>q. q \<in> set (sessions m) \<Longrightarrow> fst q = fst p \<Longrightarrow> q = p"
      using d p by (metis eq_key_imp_eq_value prod.collapse)
    with p show "(fst p \<notin> fst ` {q \<in> set (sessions m). expired cfg now (snd q)}) =
                   (\<not> expired cfg now (snd p))"
      by auto
  qed
  then have "filter (\<lambda>p. fst p \<notin> fst ` {q \<in> set (sessions m). expired cfg now (snd q)}) (sessions m) =
             filter (\<lambda>p. \<not> expired cfg now (snd p)) (sessions m)"
    by (simp cong: filter_cong)
  with cleanupLoop_sessions [OF a d, of cfg now m 0] show ?thesis
    by (simp add: cleanupInactiveSessions_def Let_def)
qed

lemma registryInv_cleanupInactiveSessions:
  assumes "registryInv m"
  shows "registryInv (snd (cleanupInactiveSessions cfg now m))"
  using assms
  by (rule registryInv_filter) (rule cleanupInactiveSessions_sessions [OF assms])

lemma registryInv_load_fold:
  "registryInv m \<Longrightarrow>
   registryInv (fold (\<lambda>sessionData acc.
                        (let loaded = fromData now sessionData
                         in acc\<lparr>sessions := mapSet (getKey (chatId loaded) (threadAnchorId loaded))
                                               loaded (sessions acc)\<rparr>)) ds m)"
proof (induction ds arbitrary: m)
  case Nil
  then show ?case by simp
next
  case (Cons d ds)
  from registryInv_mapSet [OF Cons.prems refl, of "fromData now d"] Cons.IH show ?case
    by (simp add: Let_def)
qed

lemma registryInv_loadSessions:
  assumes "registryInv m"
  shows "registryInv (loadSessions now m)"
proof -
  have c: "\<And>m c. registryInv m \<Longrightarrow> registryInv (m\<lparr>console := c\<rparr>)"
    by (simp add: registryInv_def)
  show ?thesis
    using assms registryInv_load_fold [OF assms]
    by (auto simp: loadSessions_def Let_def c split: option.splits file_content.splits)
qed



lemma sorted_prefix_member:
  "sorted (map f xs) \<Longrightarrow> x \<in> set xs \<Longrightarrow> f x \<le> c \<Longrightarrow> x \<in> set (takeWhile (\<lambda>y. f y \<le> c) xs)"
proof (induction xs)
  case Nil
  then show ?case by simp
next
  case (Cons a xs)
  show ?case
  proof (cases "x = a")
    case True
    with Cons.prems show ?thesis by simp
  next
    case False
    with Cons.prems have x: "x \<in> set xs" by simp
    with Cons.prems have "f a \<le> f x" by auto
    with Cons.prems have "f a \<le> c" by simp
    moreover from Cons.prems have "sorted (map f xs)" by simp
    ultimately show ?thesis using Cons.IH x Cons.prems(3) by simp
  qed
qed

text \<open>
  Claim C10, as stated, fails for a timeout that is not below the clock reading: the age
  computed for a session with no \<^verbatim>\<open>lastActivity\<close> is the clock reading itself (about
  1.7e12 ms), and \<^verbatim>\<open>cleanupInactiveSessions\<close> keeps the session when the timeout is
  2e12 ms.
\<close>

theorem cleanup_long_timeout_counterexample:
  "SESSION_TIMEOUT_MS patientConfig = 2000000000000 \<and>
   \<not> isRunning (idleSession 103 None) \<and>
   lastActivity (idleSession 103 None) = None \<and>
   sessions (snd (cleanupInactiveSessions patientConfig 1700000900000 fullRegistry)) =
     sessions fullRegistry \<and>
   map_of (sessions (snd (cleanupInactiveSessions patientConfig 1700000900000 fullRegistry))) (7, 103) =
     Some (idleSession 103 None)"
  by code_simp

text \<open>
  Claim C10, amended. A session whose \<^verbatim>\<open>lastActivity\<close> is \<^verbatim>\<open>null\<close> has activity time
  0 in both places. For every timeout below the clock reading, an idle session with
  \<^verbatim>\<open>null\<close> \<^verbatim>\<open>lastActivity\<close> is removed by \<^verbatim>\<open>cleanupInactiveSessions\<close>, whatever its
  creation time. Among the eviction candidates such a session stands before every
  candidate whose activity time is positive: no candidate before it, and not the first
  candidate, has an activity time above 0; and it is the first candidate when every
  other candidate has a positive activity time.
\<close>

theorem null_lastActivity_is_epoch:
  "(lastActivity s = None \<longrightarrow> activityTime s = 0) \<and>
   (registryInv m \<and> (k, s) \<in> set (sessions m) \<and> \<not> isRunning s \<and> lastActivity s = None \<and>
    SESSION_TIMEOUT_MS cfg < now \<longrightarrow>
      k \<notin> fst ` set (sessions (snd (cleanupInactiveSessions cfg now m)))) \<and>
   (s \<in> set (idleCandidates m cid) \<and> lastActivity s = None \<longrightarrow>
      s \<in> set (takeWhile (\<lambda>c. activityTime c \<le> 0) (idleSessions m cid)) \<and>
      activityTime (hd (idleSessions m cid)) \<le> 0 \<and>
      ((\<forall>c\<in>set (idleCandidates m cid). c \<noteq> s \<longrightarrow> 0 < activityTime c) \<longrightarrow>
         hd (idleSessions m cid) = s))"
proof (intro conjI impI)
  assume "lastActivity s = None"
  then show "activityTime s = 0" by (simp add: activityTime_def)
next
  assume a: "registryInv m \<and> (k, s) \<in> set (sessions m) \<and> \<not> isRunning s \<and> lastActivity s = None \<and>
             SESSION_TIMEOUT_MS cfg < now"
  then have e: "expired cfg now s" by (simp add: expired_def activityTime_def)
  from a have d: "distinct (map fst (sessions m))" by (simp add: registryInv_def)
  show "k \<notin> fst ` set (sessions (snd (cleanupInactiveSessions cfg now m)))"
  proof
    assume "k \<in> fst ` set (sessions (snd (cleanupInactiveSessions cfg now m)))"
    then obtain p where p: "p \<in> set (sessions m)" "\<not> expired cfg now (snd p)" "fst p = k"
      using a by (auto simp: cleanupInactiveSessions_sessions)
    then have "(k, snd p) \<in> set (sessions m)" by (metis prod.collapse)
    with d a have "snd p = s" by (metis eq_key_imp_eq_value)
    with p e show False by simp
  qed
next
  assume a: "s \<in> set (idleCandidates m cid) \<and> lastActivity s = None"
  then have z: "activityTime s \<le> 0" by (simp add: activityTime_def)
  have srt: "sorted (map activityTime (idleSessions m cid))"
    by (simp add: idleSessions_candidates)
  from a have mem: "s \<in> set (idleSessions m cid)" by (simp add: idleSessions_candidates)
  show "s \<in> set (takeWhile (\<lambda>c. activityTime c \<le> 0) (idleSessions m cid))"
    by (rule sorted_prefix_member [OF srt mem z])
  from mem obtain oldest others where o: "idleSessions m cid = oldest # others"
    by (cases "idleSessions m cid") auto
  then have "sort_key activityTime (idleCandidates m cid) = oldest # others"
    by (simp add: idleSessions_candidates)
  from sort_key_hd_min [OF this] a
  have om: "oldest \<in> set (idleCandidates m cid)" and ol: "activityTime oldest \<le> activityTime s"
    by simp_all
  from ol z o show hd0: "activityTime (hd (idleSessions m cid)) \<le> 0" by simp
  assume "\<forall>c\<in>set (idleCandidates m cid). c \<noteq> s \<longrightarrow> 0 < activityTime c"
  with om have "oldest \<noteq> s \<longrightarrow> 0 < activityTime oldest" by simp
  with ol z have "oldest = s" by auto
  with o show "hd (idleSessions m cid) = s" by simp
qed

theorem null_lastActivity_is_epoch_witness:
  "registryInv fullRegistry \<and>
   ((7, 103), idleSession 103 None) \<in> set (sessions fullRegistry) \<and>
   \<not> isRunning (idleSession 103 None) \<and>
   lastActivity (idleSession 103 None) = None \<and>
   SESSION_TIMEOUT_MS exampleConfig < 1700000900000 \<and>
   map fst (sessions (snd (cleanupInactiveSessions exampleConfig 1700000900000 fullRegistry))) =
     [(7, 100), (7, 101), (7, 102)] \<and>
   (7, 103) \<notin> fst ` set (sessions (snd (cleanupInactiveSessions exampleConfig 1700000900000 fullRegistry))) \<and>
   idleSession 103 None \<in> set (idleCandidates fullRegistry 7) \<and>
   hd (idleSessions fullRegistry 7) = idleSession 103 None"
proof -
  have inv: "registryInv fullRegistry"
    by (simp add: registryInv_def fullRegistry_def getKey_def runningSession_def idleSession_def
          newThreadSession_def)
  have mem: "((7, 103), idleSession 103 None) \<in> set (sessions fullRegistry)"
    by (simp add: fullRegistry_def)
  have idle: "\<not> isRunning (idleSession 103 None)"
    by (simp add: isRunning_def idleSession_def newThreadSession_def)
  have null: "lastActivity (idleSession 103 None) = None" by (simp add: idleSession_def)
  have late: "SESSION_TIMEOUT_MS exampleConfig < 1700000900000" by (simp add: exampleConfig_def)
  have keys: "map fst (sessions (snd (cleanupInactiveSessions exampleConfig 1700000900000 fullRegistry))) =
                [(7, 100), (7, 101), (7, 102)]" by code_simp
  have cand: "idleSession 103 None \<in> set (idleCandidates fullRegistry 7)" by code_simp
  have others: "\<forall>c\<in>set (idleCandidates fullRegistry 7). c \<noteq> idleSession 103 None \<longrightarrow> 0 < activityTime c"
    by code_simp
  note t = null_lastActivity_is_epoch [of "idleSession 103 None" fullRegistry "(7, 103)"
             exampleConfig 1700000900000 7]
  from t inv mem idle null late
  have gone: "(7, 103) \<notin> fst ` set (sessions (snd (cleanupInactiveSessions exampleConfig 1700000900000 fullRegistry)))"
    by blast
  from t cand null others have first: "hd (idleSessions fullRegistry 7) = idleSession 103 None"
    by blast
  show ?thesis
    by (rule conjI [OF inv conjI [OF mem conjI [OF idle conjI [OF null conjI [OF late
          conjI [OF keys conjI [OF gone conjI [OF cand first]]]]]]]])
qed

text \<open>
  Claim C9. When the sessions file parses to a record whose version is not 1,
  \<^verbatim>\<open>loadSessions\<close> loads no session: the map is left as it was (empty at startup), the
  file is untouched, and one warning naming the version is written to the console.
\<close>

theorem loadSessions_unknown_version:
  assumes "sessionsFile m = Some (Parsed d)" and "version d \<noteq> 1"
  shows "sessions (loadSessions now m) = sessions m \<and>
         sessionsFile (loadSessions now m) = sessionsFile m \<and>
         console (loadSessions now m) = console m @ [ConsoleWarn (UnknownVersion (version d))]"
  using assms by (simp add: loadSessions_def)

theorem loadSessions_unknown_version_witness:
  "sessions (loadSessions 1700000009000 version2Manager) = [] \<and>
   console (loadSessions 1700000009000 version2Manager) = [ConsoleWarn (UnknownVersion 2)]"
proof -
  have f: "sessionsFile version2Manager =
             Some (Parsed \<lparr> version = 2,
                             psessions = [toData exampleConfig 1700000005000 startedSession] \<rparr>)"
    by (simp add: version2Manager_def)
  have v: "version \<lparr> version = 2,
                     psessions = [toData exampleConfig 1700000005000 startedSession] \<rparr> \<noteq> 1"
    by simp
  from loadSessions_unknown_version [OF f v, of 1700000009000]
  show ?thesis by (simp add: version2Manager_def)
qed

end
